theory Spec2Isabelle
  imports Main "HOL-Library.Word" "HOL-Library.AList" "HOL-Library.Sublist"
begin

section \<open>JavaScript values used by \<open>frame.js\<close>\<close>

text \<open>
  A JavaScript string is a sequence of UTF-16 code units; \<open>length\<close> counts code units.
  A \<open>Uint8Array\<close> is a sequence of bytes.
\<close>

type_synonym code_unit = "16 word"
type_synonym jsstring = "code_unit list"
type_synonym byte = "8 word"
type_synonym uint8array = "byte list"

text \<open>An ASCII literal of the source, as code units.\<close>

definition js :: "string \<Rightarrow> jsstring" where
  "js s = map (\<lambda>c. of_nat (of_char c)) s"

text \<open>
  Modelled from the spec: the constants \<open>BYTE.LF\<close> and \<open>BYTE.NULL\<close> of the module
  \<open>./byte\<close>, which \<open>frame.js\<close> imports: the line feed and the null character, each a
  string of one code unit.
\<close>

definition BYTE_LF :: jsstring where
  "BYTE_LF = [0x0A]"

definition BYTE_NULL :: jsstring where
  "BYTE_NULL = [0x00]"

text \<open>
  \<open>str.replace(/x/g, r)\<close> for a pattern of one literal character, and for a pattern of
  two literal characters: matches are found from the left and do not overlap, and
  the scan goes on after the end of a match.
\<close>

fun replace1 :: "code_unit \<Rightarrow> jsstring \<Rightarrow> jsstring \<Rightarrow> jsstring" where
  "replace1 a r [] = []"
| "replace1 a r (x # xs) = (if x = a then r @ replace1 a r xs else x # replace1 a r xs)"

fun replace2 :: "code_unit \<Rightarrow> code_unit \<Rightarrow> jsstring \<Rightarrow> jsstring \<Rightarrow> jsstring" where
  "replace2 a b r (x # y # xs) =
     (if x = a \<and> y = b then r @ replace2 a b r xs else x # replace2 a b r (y # xs))"
| "replace2 a b r xs = xs"

text \<open>The class \<open>\s\<close> of a JavaScript regular expression: white space and line terminators.\<close>

definition isWhiteSpace :: "code_unit \<Rightarrow> bool" where
  "isWhiteSpace c =
     (c = 0x09 \<or> c = 0x0A \<or> c = 0x0B \<or> c = 0x0C \<or> c = 0x0D \<or> c = 0x20 \<or> c = 0xA0 \<or>
      c = 0x1680 \<or> (0x2000 \<le> c \<and> c \<le> 0x200A) \<or> c = 0x2028 \<or> c = 0x2029 \<or>
      c = 0x202F \<or> c = 0x205F \<or> c = 0x3000 \<or> c = 0xFEFF)"

text \<open>\<open>lines.join(sep)\<close>: the lines with the separator between them.\<close>

fun join :: "'a list \<Rightarrow> 'a list list \<Rightarrow> 'a list" where
  "join sep [] = []"
| "join sep [x] = x"
| "join sep (x # y # ys) = x @ sep @ join sep (y # ys)"

text \<open>The decimal digits of a non-negative integer: \<open>"" + n\<close> for a length \<open>n\<close>.\<close>

fun number_toString :: "nat \<Rightarrow> jsstring" where
  "number_toString n =
     (if n < 10 then [of_nat (48 + n)]
      else number_toString (n div 10) @ [of_nat (48 + n mod 10)])"

declare number_toString.simps [simp del]

text \<open>\<open>"" + v\<close> for a value that is a string or \<open>undefined\<close>.\<close>

definition toStr :: "jsstring option \<Rightarrow> jsstring" where
  "toStr v = (case v of None \<Rightarrow> js ''undefined'' | Some s \<Rightarrow> s)"

subsection \<open>\<open>TextEncoder.encode\<close>: UTF-8\<close>

definition isHighSurrogate :: "code_unit \<Rightarrow> bool" where
  "isHighSurrogate c = (0xD800 \<le> c \<and> c \<le> 0xDBFF)"

definition isLowSurrogate :: "code_unit \<Rightarrow> bool" where
  "isLowSurrogate c = (0xDC00 \<le> c \<and> c \<le> 0xDFFF)"

text \<open>A code unit on its own: a surrogate without its partner becomes U+FFFD.\<close>

definition lone_unit :: "code_unit \<Rightarrow> nat" where
  "lone_unit c = (if isHighSurrogate c \<or> isLowSurrogate c then 0xFFFD else unat c)"

text \<open>The scalar values of a string: a high surrogate and the low one after it are one code point.\<close>

fun code_points :: "jsstring \<Rightarrow> nat list" where
  "code_points (c # d # cs) =
     (if isHighSurrogate c \<and> isLowSurrogate d
      then (0x10000 + (unat c - 0xD800) * 0x400 + (unat d - 0xDC00)) # code_points cs
      else lone_unit c # code_points (d # cs))"
| "code_points [c] = [lone_unit c]"
| "code_points [] = []"

definition utf8_bytes :: "nat \<Rightarrow> uint8array" where
  "utf8_bytes cp =
     (if cp < 0x80 then [of_nat cp]
      else if cp < 0x800 then [of_nat (0xC0 + cp div 0x40), of_nat (0x80 + cp mod 0x40)]
      else if cp < 0x10000 then
        [of_nat (0xE0 + cp div 0x1000), of_nat (0x80 + cp div 0x40 mod 0x40),
         of_nat (0x80 + cp mod 0x40)]
      else
        [of_nat (0xF0 + cp div 0x40000), of_nat (0x80 + cp div 0x1000 mod 0x40),
         of_nat (0x80 + cp div 0x40 mod 0x40), of_nat (0x80 + cp mod 0x40)])"

definition TextEncoder_encode :: "jsstring \<Rightarrow> uint8array" where
  "TextEncoder_encode s = concat (map utf8_bytes (code_points s))"

subsection \<open>\<open>TextDecoder.decode\<close>: UTF-8, malformed input replaced by U+FFFD\<close>

text \<open>
  The state of the decoder between two bytes: the code point collected so far, the
  number of continuation bytes still needed, and the bounds of the next one.
\<close>

type_synonym decoder_state = "nat \<times> nat \<times> nat \<times> nat"

definition decoder_start :: decoder_state where
  "decoder_start = (0, 0, 0x80, 0xBF)"

text \<open>A byte read when no continuation byte is needed: the code points it emits, and the next state.\<close>

definition lead_byte :: "byte \<Rightarrow> nat list \<times> decoder_state" where
  "lead_byte b =
     (let n = unat b in
      if n \<le> 0x7F then ([n], decoder_start)
      else if 0xC2 \<le> n \<and> n \<le> 0xDF then ([], (n mod 0x20, 1, 0x80, 0xBF))
      else if 0xE0 \<le> n \<and> n \<le> 0xEF then
        ([], (n mod 0x10, 2, if n = 0xE0 then 0xA0 else 0x80, if n = 0xED then 0x9F else 0xBF))
      else if 0xF0 \<le> n \<and> n \<le> 0xF4 then
        ([], (n mod 0x08, 3, if n = 0xF0 then 0x90 else 0x80, if n = 0xF4 then 0x8F else 0xBF))
      else ([0xFFFD], decoder_start))"

text \<open>
  A continuation byte out of bounds is an error, and the byte is read again as a
  first byte; the end of the input inside a sequence is an error too.
\<close>

fun utf8_decode :: "decoder_state \<Rightarrow> uint8array \<Rightarrow> nat list" where
  "utf8_decode (cp, needed, lower, upper) [] = (if needed \<noteq> 0 then [0xFFFD] else [])"
| "utf8_decode (cp, needed, lower, upper) (b # bs) =
     (if needed = 0 then (case lead_byte b of (out, st) \<Rightarrow> out @ utf8_decode st bs)
      else if unat b < lower \<or> upper < unat b
      then (case lead_byte b of (out, st) \<Rightarrow> 0xFFFD # out @ utf8_decode st bs)
      else (let cp1 = cp * 0x40 + unat b mod 0x40 in
            if needed = 1 then cp1 # utf8_decode decoder_start bs
            else utf8_decode (cp1, needed - 1, 0x80, 0xBF) bs))"

definition utf16_units :: "nat \<Rightarrow> jsstring" where
  "utf16_units cp =
     (if cp < 0x10000 then [of_nat cp]
      else [of_nat (0xD800 + (cp - 0x10000) div 0x400),
            of_nat (0xDC00 + (cp - 0x10000) mod 0x400)])"

text \<open>\<open>new TextDecoder().decode(bytes)\<close>: a byte order mark at the start is dropped.\<close>

definition TextDecoder_decode :: "uint8array \<Rightarrow> jsstring" where
  "TextDecoder_decode bytes =
     (let cps = utf8_decode decoder_start bytes in
      concat (map utf16_units (case cps of [] \<Rightarrow> [] | c # cs \<Rightarrow> if c = 0xFEFF then cs else cps)))"

subsection \<open>Objects with string values\<close>

text \<open>
  The headers object: its own properties in insertion order, names and values strings.
  \<open>delete o[k]\<close> is \<open>AList.delete k o\<close>, and \<open>o[k]\<close>, for a name \<open>k\<close> of
  \<open>Object.keys(o)\<close>, is \<open>map_of o k\<close>.
\<close>

type_synonym headers = "(jsstring \<times> jsstring) list"

text \<open>
  \<open>o[k] = v\<close> for a string \<open>v\<close>, on an object whose prototype is \<open>Object.prototype\<close>.
  An own property is updated where it stands, a new one goes last. The name
  \<open>__proto__\<close>, when it is not an own property, reaches the setter inherited from
  \<open>Object.prototype\<close>, which ignores a value that is neither an object nor \<open>null\<close>:
  nothing is stored. No other property of \<open>Object.prototype\<close> has a setter or is
  read-only.
\<close>

definition putValue :: "headers \<Rightarrow> jsstring \<Rightarrow> jsstring \<Rightarrow> headers" where
  "putValue obj k v =
     (if k = js ''__proto__'' \<and> map_of obj k = None then obj else AList.update k v obj)"

definition isDigit :: "code_unit \<Rightarrow> bool" where
  "isDigit c = (0x30 \<le> c \<and> c \<le> 0x39)"

definition digitsValue :: "jsstring \<Rightarrow> nat" where
  "digitsValue k = foldl (\<lambda>a c. 10 * a + (unat c - 48)) 0 k"

text \<open>An array index: the canonical decimal form of an integer from 0 to \<open>2^32 - 2\<close>.\<close>

definition isArrayIndex :: "jsstring \<Rightarrow> bool" where
  "isArrayIndex k =
     (k \<noteq> [] \<and> list_all isDigit k \<and> (length k = 1 \<or> hd k \<noteq> 0x30) \<and>
      digitsValue k < 4294967295)"

text \<open>
  \<open>Object.keys(o)\<close>: the array indices in ascending numeric order, then the other
  names in insertion order.
\<close>

definition Object_keys :: "headers \<Rightarrow> jsstring list" where
  "Object_keys h =
     sort_key digitsValue (filter isArrayIndex (map fst h)) @
     filter (\<lambda>k. \<not> isArrayIndex k) (map fst h)"

text \<open>
  \<open>Object.assign(target, source)\<close>: every own property of the source is assigned to
  the target, as \<open>target[k] = source[k]\<close>.
\<close>

definition Object_assign :: "headers \<Rightarrow> headers \<Rightarrow> headers" where
  "Object_assign target source =
     fold (\<lambda>k t. case map_of source k of None \<Rightarrow> t | Some v \<Rightarrow> putValue t k v)
       (Object_keys source) target"

section \<open>The Frame class\<close>

text \<open>
  The fields of a Frame. \<open>u_body\<close> and \<open>u_binaryBody\<close> are the source's \<open>_body\<close> and
  \<open>_binaryBody\<close>; \<open>None\<close> is \<open>undefined\<close>.
\<close>

record frame =
  command :: jsstring
  headers :: headers
  u_body :: "jsstring option"
  u_binaryBody :: "uint8array option"
  isBinaryBody :: bool
  escapeHeaderValues :: bool
  skipContentLengthHeader :: bool

text \<open>The argument of the constructor; a field that is \<open>None\<close> was not supplied.\<close>

record params =
  params_command :: jsstring
  params_headers :: "headers option"
  params_body :: "jsstring option"
  params_binaryBody :: "uint8array option"
  params_escapeHeaderValues :: "bool option"
  params_skipContentLengthHeader :: "bool option"

text \<open>
  The constructor. \<open>if (binaryBody)\<close> tests an object: a \<open>Uint8Array\<close> is truthy
  whatever its length, so the test fails only for a \<open>binaryBody\<close> that was not
  supplied. \<open>body || ''\<close> is the body, or the empty string when it is absent or empty.
\<close>

definition Frame :: "params \<Rightarrow> frame" where
  "Frame p =
     \<lparr> command = params_command p,
       headers = Object_assign [] (case params_headers p of None \<Rightarrow> [] | Some h \<Rightarrow> h),
       u_body = (case params_binaryBody p of
                   Some b \<Rightarrow> None
                 | None \<Rightarrow> Some (case params_body p of None \<Rightarrow> [] | Some s \<Rightarrow> s)),
       u_binaryBody = (case params_binaryBody p of Some b \<Rightarrow> Some b | None \<Rightarrow> None),
       isBinaryBody = (case params_binaryBody p of Some b \<Rightarrow> True | None \<Rightarrow> False),
       escapeHeaderValues = (case params_escapeHeaderValues p of None \<Rightarrow> False | Some b \<Rightarrow> b),
       skipContentLengthHeader =
         (case params_skipContentLengthHeader p of None \<Rightarrow> False | Some b \<Rightarrow> b) \<rparr>"

text \<open>
  The getter \<open>binaryBody\<close>: a text-bodied frame encodes its body on the first call and
  keeps the bytes. The result is the value and the frame after the call.
\<close>

definition binaryBody :: "frame \<Rightarrow> uint8array option \<times> frame" where
  "binaryBody this =
     (let this1 =
        (if u_binaryBody this = None \<and> \<not> isBinaryBody this
         then this\<lparr>u_binaryBody :=
                Some (TextEncoder_encode (case u_body this of None \<Rightarrow> [] | Some s \<Rightarrow> s))\<rparr>
         else this)
      in (u_binaryBody this1, this1))"

text \<open>
  The getter \<open>body\<close>: a binary-bodied frame decodes its bytes when \<open>_body\<close> is
  \<open>undefined\<close> or the empty string, and keeps the text. Decoding an \<open>undefined\<close>
  \<open>_binaryBody\<close> gives the empty string.
\<close>

definition body :: "frame \<Rightarrow> jsstring option \<times> frame" where
  "body this =
     (let this1 =
        (if (u_body this = None \<or> u_body this = Some []) \<and> isBinaryBody this
         then this\<lparr>u_body :=
                Some (TextDecoder_decode (case u_binaryBody this of None \<Rightarrow> [] | Some b \<Rightarrow> b))\<rparr>
         else this)
      in (u_body this1, this1))"

definition bodyLength :: "frame \<Rightarrow> nat \<times> frame" where
  "bodyLength this =
     (case binaryBody this of
        (Some b, this1) \<Rightarrow> (length b, this1)
      | (None, this1) \<Rightarrow> (0, this1))"

definition isBodyEmpty :: "frame \<Rightarrow> bool \<times> frame" where
  "isBodyEmpty this = (case bodyLength this of (n, this1) \<Rightarrow> (n = 0, this1))"

subsection \<open>Escaping of header values\<close>

definition hdrValueEscape :: "jsstring \<Rightarrow> jsstring" where
  "hdrValueEscape str =
     replace1 0x3A [0x5C, 0x63]
       (replace1 0x0A [0x5C, 0x6E]
         (replace1 0x0D [0x5C, 0x72]
           (replace1 0x5C [0x5C, 0x5C] str)))"

definition hdrValueUnEscape :: "jsstring \<Rightarrow> jsstring" where
  "hdrValueUnEscape str =
     replace2 0x5C 0x5C [0x5C]
       (replace2 0x5C 0x63 [0x3A]
         (replace2 0x5C 0x6E [0x0A]
           (replace2 0x5C 0x72 [0x0D] str)))"

subsection \<open>Serialization\<close>

text \<open>Whether header values are escaped: the flag, and a command other than CONNECT and CONNECTED.\<close>

definition escaping :: "bool \<Rightarrow> jsstring \<Rightarrow> bool" where
  "escaping flag cmd = (flag \<and> cmd \<noteq> js ''CONNECT'' \<and> cmd \<noteq> js ''CONNECTED'')"

text \<open>The line pushed for one header name, the body of the loop over \<open>Object.keys\<close>.\<close>

definition headerLine :: "frame \<Rightarrow> jsstring \<Rightarrow> jsstring" where
  "headerLine this name =
     (let value = map_of (headers this) name in
      if escaping (escapeHeaderValues this) (command this)
      then name @ js '':'' @ hdrValueEscape (toStr value)
      else name @ js '':'' @ toStr value)"

definition serializeCmdAndHeaders :: "frame \<Rightarrow> jsstring \<times> frame" where
  "serializeCmdAndHeaders this =
     (let lines0 = [command this];
          this1 = (if skipContentLengthHeader this
                   then this\<lparr>headers := AList.delete (js ''content-length'') (headers this)\<rparr>
                   else this);
          lines1 = lines0 @ map (headerLine this1) (Object_keys (headers this1));
          (push, this2) =
            (if isBinaryBody this1 then (True, this1)
             else (case isBodyEmpty this1 of
                     (e, t) \<Rightarrow> (\<not> e \<and> \<not> skipContentLengthHeader t, t)));
          (lines2, this3) =
            (if push
             then (case bodyLength this2 of
                     (n, t) \<Rightarrow> (lines1 @ [js ''content-length:'' @ number_toString n], t))
             else (lines1, this2))
      in (join BYTE_LF lines2 @ BYTE_LF @ BYTE_LF, this3))"

datatype error = TypeError

text \<open>What \<open>serialize\<close> returns: a string for a text body, a buffer of bytes for a binary one.\<close>

datatype wire = WireText jsstring | WireBuffer uint8array

text \<open>\<open>binaryBody.length\<close> of an \<open>undefined\<close> body throws.\<close>

definition toUnit8Array :: "jsstring \<Rightarrow> uint8array option \<Rightarrow> error + uint8array" where
  "toUnit8Array cmdAndHeaders binaryBody' =
     (case binaryBody' of
        None \<Rightarrow> Inl TypeError
      | Some b \<Rightarrow> Inr (TextEncoder_encode cmdAndHeaders @ b @ [0]))"

definition serialize :: "frame \<Rightarrow> error + (wire \<times> frame)" where
  "serialize this =
     (case serializeCmdAndHeaders this of
        (cmdAndHeaders, this1) \<Rightarrow>
          if isBinaryBody this1
          then (case toUnit8Array cmdAndHeaders (u_binaryBody this1) of
                  Inl e \<Rightarrow> Inl e
                | Inr u \<Rightarrow> Inr (WireBuffer u, this1))
          else Inr (WireText (cmdAndHeaders @ toStr (u_body this1) @ BYTE_NULL), this1))"

definition marshall :: "params \<Rightarrow> error + (wire \<times> frame)" where
  "marshall p = serialize (Frame p)"

subsection \<open>Decoding a raw frame\<close>

text \<open>
  A raw frame: the command, the header lines in the order received, each a pair of
  a raw name and a raw value, and the body, if any.
\<close>

record rawFrame =
  raw_command :: jsstring
  raw_headers :: "(jsstring \<times> jsstring) list"
  raw_binaryBody :: "uint8array option"

text \<open>\<open>str.replace(/^\s+|\s+$/g, '')\<close>.\<close>

definition trim :: "jsstring \<Rightarrow> jsstring" where
  "trim str = rev (dropWhile isWhiteSpace (rev (dropWhile isWhiteSpace str)))"

text \<open>
  \<open>rawFrame.headers.reverse()\<close> reverses the caller's array in place: the raw frame
  after the call is the second component of the result.
\<close>

definition fromRawFrame :: "rawFrame \<Rightarrow> bool \<Rightarrow> frame \<times> rawFrame" where
  "fromRawFrame rawFrame escapeHeaderValues' =
     (let rawFrame1 = rawFrame\<lparr>raw_headers := rev (raw_headers rawFrame)\<rparr>;
          hdrs =
            fold (\<lambda>header hs.
                    let key = trim (fst header);
                        value = trim (snd header);
                        value1 = (if escaping escapeHeaderValues' (raw_command rawFrame1)
                                  then hdrValueUnEscape value else value)
                    in putValue hs key value1)
              (raw_headers rawFrame1) []
      in (Frame \<lparr> params_command = raw_command rawFrame1,
                  params_headers = Some hdrs,
                  params_body = None,
                  params_binaryBody = raw_binaryBody rawFrame1,
                  params_escapeHeaderValues = Some escapeHeaderValues',
                  params_skipContentLengthHeader = None \<rparr>,
          rawFrame1))"

subsection \<open>What a serialization sends\<close>

text \<open>
  The headers left after lines 109 to 111 of \<open>serializeCmdAndHeaders\<close> (the entry
  \<open>content-length\<close> is deleted when \<open>skipContentLengthHeader\<close> is set), and the
  lines the loop pushes for them.
\<close>

definition headersSent :: "frame \<Rightarrow> headers" where
  "headersSent this =
     (if skipContentLengthHeader this
      then AList.delete (js ''content-length'') (headers this) else headers this)"

definition headerLines :: "frame \<Rightarrow> jsstring list" where
  "headerLines this =
     map (headerLine (this\<lparr>headers := headersSent this\<rparr>)) (Object_keys (headersSent this))"

subsection \<open>The escape sequences, one character at a time\<close>

text \<open>
  What \<open>hdrValueEscape\<close> makes of one character, with a flag for each of carriage
  return, line feed and colon that says whether it is escaped; and the values in
  which no backslash stands before an \<open>r\<close>, an \<open>n\<close> or a \<open>c\<close>.
\<close>

definition escapeUnit :: "bool \<Rightarrow> bool \<Rightarrow> bool \<Rightarrow> code_unit \<Rightarrow> jsstring" where
  "escapeUnit cr lf col c =
     (if c = 0x5C then [0x5C, 0x5C]
      else if c = 0x0D \<and> cr then [0x5C, 0x72]
      else if c = 0x0A \<and> lf then [0x5C, 0x6E]
      else if c = 0x3A \<and> col then [0x5C, 0x63]
      else [c])"

fun clashFree :: "jsstring \<Rightarrow> bool" where
  "clashFree (x # y # xs) =
     (\<not> (x = 0x5C \<and> (y = 0x72 \<or> y = 0x6E \<or> y = 0x63)) \<and> clashFree (y # xs))"
| "clashFree [x] = True"
| "clashFree [] = True"

subsection \<open>Well-formed text\<close>

text \<open>
  The strings without an unpaired surrogate, and the code points UTF-8 encodes as
  they are (the scalar values).
\<close>

fun wellFormed :: "jsstring \<Rightarrow> bool" where
  "wellFormed (c # d # cs) =
     (if isHighSurrogate c \<and> isLowSurrogate d then wellFormed cs
      else \<not> isHighSurrogate c \<and> \<not> isLowSurrogate c \<and> wellFormed (d # cs))"
| "wellFormed [c] = (\<not> isHighSurrogate c \<and> \<not> isLowSurrogate c)"
| "wellFormed [] = True"

definition scalar :: "nat \<Rightarrow> bool" where
  "scalar cp = (cp < 0x110000 \<and> (cp < 0xD800 \<or> 0xDFFF < cp))"

section \<open>The splitter\<close>

text \<open>
  Modelled from the spec: the splitter that cuts the bytes that come off the wire
  into a raw frame. It is not part of \<open>frame.js\<close>; the spec gives the wire format it
  reads (section 6): the command line, the header lines \<open>name:value\<close>, each ended by
  a line feed (a single byte), an empty line, the body bytes, and one null byte after
  the body; a \<open>content-length\<close> header, when present, declares the exact byte length
  of the body. The bytes of a serialization are the bytes of the buffer, and the
  UTF-8 bytes of the text for a text-bodied frame. The command is the first line, the
  header lines are the lines after it up to the first empty line, each cut at its
  first colon into the raw name and the raw value; the command, the names and the
  values are texts, decoded from UTF-8. The body is, of the bytes after the empty
  line, as many as the first \<open>content-length\<close> line declares when its value is a
  decimal number, and otherwise the bytes before the first null byte.
\<close>

text \<open>
  Modelled from the spec: the raw byte sequence exchanged over the transport for what
  \<open>serialize\<close> returns, the buffer itself or the UTF-8 bytes of the text.
\<close>

definition wireBytes :: "wire \<Rightarrow> uint8array" where
  "wireBytes out = (case out of WireText s \<Rightarrow> TextEncoder_encode s | WireBuffer b \<Rightarrow> b)"

text \<open>
  Modelled from the spec: the lines of the wire format, the pieces between one
  separator and the next.
\<close>

fun splitOn :: "'a \<Rightarrow> 'a list \<Rightarrow> 'a list list" where
  "splitOn sep [] = [[]]"
| "splitOn sep (c # cs) =
     (if c = sep then [] # splitOn sep cs
      else (case splitOn sep cs of [] \<Rightarrow> [[c]] | l # ls \<Rightarrow> (c # l) # ls))"

text \<open>
  Modelled from the spec: a header line \<open>name:value\<close> as a raw header line pair, cut at
  its first colon; a line without a colon is a name with the empty value.
\<close>

definition splitHeaderLine :: "uint8array \<Rightarrow> jsstring \<times> jsstring" where
  "splitHeaderLine l =
     (TextDecoder_decode (takeWhile (\<lambda>b. b \<noteq> 0x3A) l),
      TextDecoder_decode (drop 1 (dropWhile (\<lambda>b. b \<noteq> 0x3A) l)))"

text \<open>
  Modelled from the spec: the byte length of the body that the header
  \<open>content-length\<close> declares, read from the first line of that name when its value
  is a decimal number.
\<close>

definition declaredLength :: "(jsstring \<times> jsstring) list \<Rightarrow> nat option" where
  "declaredLength hs =
     (case map_of hs (js ''content-length'') of
        None \<Rightarrow> None
      | Some v \<Rightarrow> if v \<noteq> [] \<and> list_all isDigit v then Some (digitsValue v) else None)"

text \<open>
  Modelled from the spec: the raw-frame splitter, from the incoming wire bytes to the
  command, the ordered raw header line pairs and the body bytes.
\<close>

definition split :: "uint8array \<Rightarrow> rawFrame" where
  "split bytes =
     (case splitOn 0x0A bytes of
        [] \<Rightarrow> \<lparr> raw_command = [], raw_headers = [], raw_binaryBody = None \<rparr>
      | cmd # rest \<Rightarrow>
          (let hs = map splitHeaderLine (takeWhile (\<lambda>l. l \<noteq> []) rest);
               after = join [0x0A] (drop 1 (dropWhile (\<lambda>l. l \<noteq> []) rest))
           in \<lparr> raw_command = TextDecoder_decode cmd,
                raw_headers = hs,
                raw_binaryBody =
                  Some (case declaredLength hs of
                          Some n \<Rightarrow> take n after
                        | None \<Rightarrow> takeWhile (\<lambda>b. b \<noteq> 0x00) after) \<rparr>))"

section \<open>Facts about the model\<close>

lemmas lit_defs = js_def BYTE_LF_def BYTE_NULL_def toStr_def
lemmas object_defs = putValue_def Object_assign_def Object_keys_def isArrayIndex_def isDigit_def
  digitsValue_def
lemmas encode_defs = number_toString.simps TextEncoder_encode_def utf8_bytes_def lone_unit_def
  isHighSurrogate_def isLowSurrogate_def
lemmas frame_defs = Frame_def bodyLength_def binaryBody_def isBodyEmpty_def
  serializeCmdAndHeaders_def headerLine_def escaping_def serialize_def toUnit8Array_def
  hdrValueEscape_def hdrValueUnEscape_def

subsection \<open>Objects\<close>

lemma set_Object_keys: "set (Object_keys h) = fst ` set h"
  by (auto simp: Object_keys_def)

lemma map_of_putValue:
  "map_of obj (js ''__proto__'') = None \<Longrightarrow>
   map_of (putValue obj k v) k' =
     (if k = js ''__proto__'' then map_of obj k' else if k' = k then Some v else map_of obj k')"
  by (simp add: putValue_def update_conv')

lemma map_of_assign_fold:
  "map_of t (js ''__proto__'') = None \<Longrightarrow>
   map_of (fold (\<lambda>k t. case map_of s k of None \<Rightarrow> t | Some v \<Rightarrow> putValue t k v) ks t) k =
     (if k \<in> set ks \<and> k \<noteq> js ''__proto__''
      then (case map_of s k of None \<Rightarrow> map_of t k | Some v \<Rightarrow> Some v)
      else map_of t k)"
proof (induction ks arbitrary: t)
  case Nil
  then show ?case by simp
next
  case (Cons a ks)
  show ?case
  proof (cases "map_of s a")
    case None
    with Cons show ?thesis by auto
  next
    case (Some v)
    have "map_of (putValue t a v) (js ''__proto__'') = None"
      using Cons.prems by (simp add: map_of_putValue)
    from Cons.IH [OF this] Some Cons.prems show ?thesis
      by (auto simp: map_of_putValue split: option.splits)
  qed
qed

text \<open>A constructed frame has the headers it was given, but for a property \<open>__proto__\<close>.\<close>

lemma map_of_Object_assign_empty:
  "map_of (Object_assign [] s) k = (if k = js ''__proto__'' then None else map_of s k)"
proof -
  have "k \<in> fst ` set s \<longleftrightarrow> map_of s k \<noteq> None"
    by (simp add: map_of_eq_None_iff)
  then show ?thesis
    by (auto simp: Object_assign_def map_of_assign_fold set_Object_keys split: option.splits)
qed

lemma map_of_fold_putValue:
  "map_of acc (js ''__proto__'') = None \<Longrightarrow>
   map_of (fold (\<lambda>h hs. putValue hs (f h) (g h)) ys acc) k =
     (if k = js ''__proto__'' then None
      else case map_of (rev (map (\<lambda>h. (f h, g h)) ys)) k of
             None \<Rightarrow> map_of acc k | Some v \<Rightarrow> Some v)"
proof (induction ys arbitrary: acc)
  case Nil
  then show ?case by simp
next
  case (Cons y ys)
  have "map_of (putValue acc (f y) (g y)) (js ''__proto__'') = None"
    using Cons.prems by (simp add: map_of_putValue)
  from Cons.IH [OF this] Cons.prems show ?case
    by (auto simp: map_of_putValue map_add_def split: option.splits)
qed

lemma filter_swap: "filter P (filter Q xs) = filter Q (filter P xs)"
  by (induction xs) auto

lemma Object_keys_delete:
  "Object_keys (AList.delete k h) = filter (\<lambda>n. n \<noteq> k) (Object_keys h)"
proof -
  have "map fst (AList.delete k h) = filter (\<lambda>n. n \<noteq> k) (map fst h)"
    by (induction h) auto
  then show ?thesis
    unfolding Object_keys_def
    by (simp only: filter_append filter_sort filter_swap [of "\<lambda>n. n \<noteq> k"])
qed

subsection \<open>The constructor and the body\<close>

lemma Frame_fields:
  "command (Frame p) = params_command p"
  "isBinaryBody (Frame p) = (params_binaryBody p \<noteq> None)"
  "u_binaryBody (Frame p) = params_binaryBody p"
  "params_binaryBody p = None \<Longrightarrow>
     u_body (Frame p) = Some (case params_body p of None \<Rightarrow> [] | Some s \<Rightarrow> s)"
  "skipContentLengthHeader (Frame p) = (params_skipContentLengthHeader p = Some True)"
  "escapeHeaderValues (Frame p) = (params_escapeHeaderValues p = Some True)"
  by (auto simp: Frame_def split: option.splits)

lemma bodyLength_headers [simp]: "fst (bodyLength (this\<lparr>headers := h\<rparr>)) = fst (bodyLength this)"
  by (simp add: bodyLength_def binaryBody_def Let_def split: option.splits)

lemma bodyLength_again [simp]: "fst (bodyLength (snd (bodyLength this))) = fst (bodyLength this)"
  by (simp add: bodyLength_def binaryBody_def Let_def split: option.splits)

lemma isBodyEmpty_conv: "isBodyEmpty this = (fst (bodyLength this) = 0, snd (bodyLength this))"
  by (simp add: isBodyEmpty_def split: prod.splits)

lemma bodyLength_fields [simp]:
  "skipContentLengthHeader (snd (bodyLength this)) = skipContentLengthHeader this"
  "isBinaryBody (snd (bodyLength this)) = isBinaryBody this"
  "headers (snd (bodyLength this)) = headers this"
  "command (snd (bodyLength this)) = command this"
  "escapeHeaderValues (snd (bodyLength this)) = escapeHeaderValues this"
  "u_body (snd (bodyLength this)) = u_body this"
  by (simp_all add: bodyLength_def binaryBody_def Let_def split: option.splits)

lemma bodyLength_u_binaryBody:
  "u_binaryBody (snd (bodyLength this)) =
     (if u_binaryBody this = None \<and> \<not> isBinaryBody this
      then Some (TextEncoder_encode (case u_body this of None \<Rightarrow> [] | Some s \<Rightarrow> s))
      else u_binaryBody this)"
  by (simp add: bodyLength_def binaryBody_def Let_def split: option.splits)

subsection \<open>The header block\<close>

text \<open>
  The text \<open>serializeCmdAndHeaders\<close> returns: the command, the lines of the headers
  sent, and the line \<open>content-length\<close> when the body is binary, or is not empty while
  \<open>skipContentLengthHeader\<close> is not set; then two line feeds.
\<close>

lemma serializeCmdAndHeaders_text:
  "fst (serializeCmdAndHeaders this) =
     join BYTE_LF (command this # headerLines this @
       (if isBinaryBody this \<or> (fst (bodyLength this) \<noteq> 0 \<and> \<not> skipContentLengthHeader this)
        then [js ''content-length:'' @ number_toString (fst (bodyLength this))] else [])) @
     BYTE_LF @ BYTE_LF"
  by (simp add: serializeCmdAndHeaders_def Let_def isBodyEmpty_conv headerLines_def
      headersSent_def case_prod_unfold)

lemma serializeCmdAndHeaders_frame:
  "isBinaryBody (snd (serializeCmdAndHeaders this)) = isBinaryBody this"
  "command (snd (serializeCmdAndHeaders this)) = command this"
  "headers (snd (serializeCmdAndHeaders this)) = headersSent this"
  "u_body (snd (serializeCmdAndHeaders this)) = u_body this"
  "isBinaryBody this \<Longrightarrow> u_binaryBody (snd (serializeCmdAndHeaders this)) = u_binaryBody this"
  by (simp_all add: serializeCmdAndHeaders_def Let_def isBodyEmpty_conv case_prod_unfold
      headersSent_def bodyLength_u_binaryBody)

lemma headerLine_delete:
  "name \<noteq> k \<Longrightarrow>
   headerLine (this\<lparr>headers := AList.delete k (headers this)\<rparr>) name = headerLine this name"
  by (simp add: headerLine_def delete_conv')

lemma headerLines_skip:
  "skipContentLengthHeader this \<Longrightarrow>
   headerLines this =
     map (headerLine this) (filter (\<lambda>n. n \<noteq> js ''content-length'') (Object_keys (headers this)))"
  by (simp add: headerLines_def headersSent_def Object_keys_delete headerLine_delete)

lemma prefix_name_colon:
  "c \<notin> set a \<Longrightarrow> c \<notin> set b \<Longrightarrow> prefix (a @ [c]) (b @ c # r) \<Longrightarrow> a = b"
proof (induction a arbitrary: b)
  case Nil
  then show ?case by (cases b) auto
next
  case (Cons x a)
  then show ?case by (cases b) auto
qed

lemma headerLine_not_content_length:
  assumes "0x3A \<notin> set name" and "name \<noteq> js ''content-length''"
  shows "\<not> prefix (js ''content-length:'') (headerLine this name)"
proof
  assume pre: "prefix (js ''content-length:'') (headerLine this name)"
  have "\<exists>v. headerLine this name = name @ 0x3A # v"
    by (simp add: headerLine_def Let_def js_def)
  then obtain v where v: "headerLine this name = name @ 0x3A # v" ..
  have cl: "js ''content-length:'' = js ''content-length'' @ [0x3A]"
    by (simp add: js_def)
  have p: "prefix (js ''content-length'' @ [0x3A]) (name @ 0x3A # v)"
    using pre unfolding v cl .
  have "0x3A \<notin> set (js ''content-length'')"
    by (simp add: js_def)
  then have "js ''content-length'' = name"
    using assms(1) p by (rule prefix_name_colon)
  with assms(2) show False by simp
qed

subsection \<open>UTF-8 of a text followed by another\<close>

lemma code_points_append:
  "ys = [] \<or> \<not> isLowSurrogate (hd ys) \<Longrightarrow> code_points (xs @ ys) = code_points xs @ code_points ys"
proof (induction xs rule: code_points.induct)
  case (1 c d cs)
  then show ?case by simp
next
  case (2 c)
  then show ?case by (cases ys) auto
next
  case 3
  then show ?case by simp
qed

lemma TextEncoder_encode_append:
  "ys = [] \<or> \<not> isLowSurrogate (hd ys) \<Longrightarrow>
   TextEncoder_encode (xs @ ys) = TextEncoder_encode xs @ TextEncoder_encode ys"
  by (simp add: TextEncoder_encode_def code_points_append)

lemma TextEncoder_encode_LF_LF: "TextEncoder_encode (BYTE_LF @ BYTE_LF) = [0x0A, 0x0A]"
  by (simp add: encode_defs lit_defs)

subsection \<open>The headers of a decoded frame\<close>

text \<open>
  Looking a name up in the decoded headers is looking it up in the list of the
  trimmed (and, when escaping applies, unescaped) header lines, in the order received.
\<close>

lemma headers_fromRawFrame:
  "map_of (headers (fst (fromRawFrame r esc))) k =
   (if k = js ''__proto__'' then None
    else map_of (map (\<lambda>h. (trim (fst h),
        if escaping esc (raw_command r) then hdrValueUnEscape (trim (snd h)) else trim (snd h)))
      (raw_headers r)) k)"
  by (simp add: fromRawFrame_def Frame_def Let_def map_of_fold_putValue rev_map
      map_of_Object_assign_empty split: option.splits)

text \<open>
  For every name but \<open>__proto__\<close>, the first line of the name decides: a line
  \<open>(k, v)\<close> with no line of that name before it binds the trimmed name to the
  trimmed value, unescaped when escaping applies.
\<close>

lemma fromRawFrame_first_line:
  assumes "raw_headers r = pre @ (k, v) # post"
    and "list_all (\<lambda>h. trim (fst h) \<noteq> trim k) pre"
    and "trim k \<noteq> js ''__proto__''"
  shows "map_of (headers (fst (fromRawFrame r esc))) (trim k) =
         Some (if escaping esc (raw_command r) then hdrValueUnEscape (trim v) else trim v)"
proof -
  let ?f = "\<lambda>h. (trim (fst h),
     if escaping esc (raw_command r) then hdrValueUnEscape (trim (snd h)) else trim (snd h))"
  from assms(2) have "trim k \<notin> fst ` set (map ?f pre)"
    by (induction pre) auto
  then have "map_of (map ?f pre) (trim k) = None"
    by (simp add: map_of_eq_None_iff)
  then show ?thesis
    using assms(3) by (simp add: headers_fromRawFrame assms(1) map_add_def)
qed

subsection \<open>Escaping and unescaping\<close>

lemma replace1_append: "replace1 a r (xs @ ys) = replace1 a r xs @ replace1 a r ys"
  by (induction xs) auto

lemma hdrValueEscape_conv: "hdrValueEscape s = concat (map (escapeUnit True True True) s)"
proof (induction s)
  case Nil
  then show ?case by (simp add: hdrValueEscape_def)
next
  case (Cons c s)
  have "hdrValueEscape (c # s) = escapeUnit True True True c @ hdrValueEscape s"
    by (simp add: hdrValueEscape_def escapeUnit_def replace1_append)
  with Cons show ?case by simp
qed

lemma replace2_other: "x \<noteq> a \<Longrightarrow> replace2 a b r (x # xs) = x # replace2 a b r xs"
  by (cases xs) auto

lemma unescape_stage_r:
  "clashFree s \<Longrightarrow>
   replace2 0x5C 0x72 [0x0D] (concat (map (escapeUnit True lf col) s)) =
     concat (map (escapeUnit False lf col) s)"
proof (induction s rule: clashFree.induct)
  case (1 x y xs)
  then show ?case
    by (auto simp: escapeUnit_def replace2_other)
next
  case (2 x)
  then show ?case by (auto simp: escapeUnit_def)
next
  case 3
  then show ?case by simp
qed

lemma unescape_stage_n:
  "clashFree s \<Longrightarrow>
   replace2 0x5C 0x6E [0x0A] (concat (map (escapeUnit False True col) s)) =
     concat (map (escapeUnit False False col) s)"
proof (induction s rule: clashFree.induct)
  case (1 x y xs)
  then show ?case
    by (auto simp: escapeUnit_def replace2_other)
next
  case (2 x)
  then show ?case by (auto simp: escapeUnit_def)
next
  case 3
  then show ?case by simp
qed

lemma unescape_stage_c:
  "clashFree s \<Longrightarrow>
   replace2 0x5C 0x63 [0x3A] (concat (map (escapeUnit False False True) s)) =
     concat (map (escapeUnit False False False) s)"
proof (induction s rule: clashFree.induct)
  case (1 x y xs)
  then show ?case
    by (auto simp: escapeUnit_def replace2_other)
next
  case (2 x)
  then show ?case by (auto simp: escapeUnit_def)
next
  case 3
  then show ?case by simp
qed

lemma unescape_stage_backslash:
  "replace2 0x5C 0x5C [0x5C] (concat (map (escapeUnit False False False) s)) = s"
  by (induction s) (auto simp: escapeUnit_def replace2_other)

lemma hdrValueUnEscape_hdrValueEscape:
  "clashFree s \<Longrightarrow> hdrValueUnEscape (hdrValueEscape s) = s"
  by (simp add: hdrValueUnEscape_def hdrValueEscape_conv unescape_stage_r unescape_stage_n
      unescape_stage_c unescape_stage_backslash)

lemma hdrValueEscape_no_LF: "0x0A \<notin> set (hdrValueEscape s)"
  by (induction s) (auto simp: hdrValueEscape_conv escapeUnit_def)

lemma trim_self_iff:
  "trim s = s \<longleftrightarrow> s = [] \<or> (\<not> isWhiteSpace (hd s) \<and> \<not> isWhiteSpace (last s))"
proof (cases "s = []")
  case True
  then show ?thesis by (simp add: trim_def)
next
  case False
  show ?thesis
  proof (cases "isWhiteSpace (hd s)")
    case True
    with False have "length (dropWhile isWhiteSpace s) < length s"
      by (cases s) (auto simp: le_imp_less_Suc length_dropWhile_le)
    moreover have "length (trim s) \<le> length (dropWhile isWhiteSpace s)"
      using length_dropWhile_le [of isWhiteSpace "rev (dropWhile isWhiteSpace s)"]
      by (simp add: trim_def)
    ultimately have "trim s \<noteq> s" by auto
    with True False show ?thesis by simp
  next
    case nws: False
    with False have d: "dropWhile isWhiteSpace s = s"
      by (simp add: dropWhile_eq_self_iff)
    have "trim s = s \<longleftrightarrow> dropWhile isWhiteSpace (rev s) = rev s"
      by (simp add: trim_def d rev_swap)
    also have "\<dots> \<longleftrightarrow> \<not> isWhiteSpace (last s)"
      using False by (simp add: dropWhile_eq_self_iff hd_rev)
    finally show ?thesis using nws False by simp
  qed
qed

lemma escapeUnit_not_space:
  "\<not> isWhiteSpace c \<Longrightarrow>
   \<not> isWhiteSpace (hd (escapeUnit True True True c)) \<and>
   \<not> isWhiteSpace (last (escapeUnit True True True c))"
  by (auto simp: escapeUnit_def isWhiteSpace_def)

lemma escapeUnit_not_Nil [simp]: "escapeUnit cr lf col c \<noteq> []"
  by (simp add: escapeUnit_def)

lemma trim_hdrValueEscape:
  assumes "trim v = v"
  shows "trim (hdrValueEscape v) = hdrValueEscape v"
proof (cases "v = []")
  case True
  then show ?thesis by (simp add: hdrValueEscape_conv trim_def)
next
  case False
  with assms have ends: "\<not> isWhiteSpace (hd v)" "\<not> isWhiteSpace (last v)"
    by (simp_all add: trim_self_iff)
  from False obtain x xs where v1: "v = x # xs" by (cases v) auto
  from False obtain ys z where v2: "v = ys @ [z]" by (cases v rule: rev_cases) auto
  have "hd (hdrValueEscape v) = hd (escapeUnit True True True (hd v))"
    by (simp add: v1 hdrValueEscape_conv)
  moreover have "last (hdrValueEscape v) = last (escapeUnit True True True (last v))"
    by (simp add: v2 hdrValueEscape_conv)
  moreover have "hdrValueEscape v \<noteq> []"
    by (simp add: v1 hdrValueEscape_conv)
  ultimately show ?thesis
    using ends escapeUnit_not_space by (simp add: trim_self_iff)
qed

lemma number_toString_no_LF: "0x0A \<notin> set (number_toString n)"
proof (induction n rule: number_toString.induct)
  case (1 n)
  have d: "(of_nat (48 + k) :: code_unit) \<noteq> 0x0A" if "k < 10" for k
  proof -
    have u: "unat (of_nat (48 + k) :: code_unit) = 48 + k"
      unfolding unat_of_nat using that by simp
    have "unat (of_nat (48 + k) :: code_unit) \<noteq> unat (0x0A :: code_unit)"
      unfolding u by simp
    then show ?thesis by metis
  qed
  show ?case
    using 1 d [of n] d [of "n mod 10"]
    by (subst number_toString.simps) auto
qed

subsection \<open>UTF-8: decoding what was encoded\<close>

lemma unat_byte: "n < 256 \<Longrightarrow> unat (of_nat n :: byte) = n"
  by (simp add: unat_of_nat)

lemma decode1:
  assumes "n1 \<le> 0x7F"
  shows "utf8_decode decoder_start (of_nat n1 # rest) = n1 # utf8_decode decoder_start rest"
proof -
  have "unat (of_nat n1 :: byte) = n1" using assms by (simp add: unat_byte)
  then show ?thesis
    using assms by (simp add: decoder_start_def lead_byte_def Let_def)
qed

lemma decode2:
  assumes "0xC2 \<le> n1" "n1 \<le> 0xDF" "0x80 \<le> n2" "n2 \<le> 0xBF"
  shows "utf8_decode decoder_start (of_nat n1 # of_nat n2 # rest) =
           (n1 mod 0x20 * 0x40 + n2 mod 0x40) # utf8_decode decoder_start rest"
proof -
  have "unat (of_nat n1 :: byte) = n1" "unat (of_nat n2 :: byte) = n2"
    using assms by (simp_all add: unat_byte)
  then show ?thesis
    using assms by (simp add: decoder_start_def lead_byte_def Let_def)
qed

lemma decode3:
  assumes "0xE0 \<le> n1" "n1 \<le> 0xEF"
    and "(if n1 = 0xE0 then 0xA0 else 0x80) \<le> n2" "n2 \<le> (if n1 = 0xED then 0x9F else 0xBF)"
    and "0x80 \<le> n3" "n3 \<le> 0xBF"
  shows "utf8_decode decoder_start (of_nat n1 # of_nat n2 # of_nat n3 # rest) =
           ((n1 mod 0x10 * 0x40 + n2 mod 0x40) * 0x40 + n3 mod 0x40) #
           utf8_decode decoder_start rest"
proof -
  have n2: "n2 < 256" using assms(4) by (simp split: if_splits)
  have "unat (of_nat n1 :: byte) = n1" "unat (of_nat n2 :: byte) = n2"
    "unat (of_nat n3 :: byte) = n3"
    using assms n2 by (simp_all add: unat_byte)
  then show ?thesis
    using assms by (simp add: decoder_start_def lead_byte_def Let_def)
qed

lemma decode4:
  assumes "0xF0 \<le> n1" "n1 \<le> 0xF4"
    and "(if n1 = 0xF0 then 0x90 else 0x80) \<le> n2" "n2 \<le> (if n1 = 0xF4 then 0x8F else 0xBF)"
    and "0x80 \<le> n3" "n3 \<le> 0xBF" "0x80 \<le> n4" "n4 \<le> 0xBF"
  shows "utf8_decode decoder_start (of_nat n1 # of_nat n2 # of_nat n3 # of_nat n4 # rest) =
           (((n1 mod 0x08 * 0x40 + n2 mod 0x40) * 0x40 + n3 mod 0x40) * 0x40 + n4 mod 0x40) #
           utf8_decode decoder_start rest"
proof -
  have n2: "n2 < 256" using assms(4) by (simp split: if_splits)
  have "unat (of_nat n1 :: byte) = n1" "unat (of_nat n2 :: byte) = n2"
    "unat (of_nat n3 :: byte) = n3" "unat (of_nat n4 :: byte) = n4"
    using assms n2 by (simp_all add: unat_byte)
  then show ?thesis
    using assms by (simp add: decoder_start_def lead_byte_def Let_def)
qed

lemma mod_lead:
  fixes x :: nat
  shows "x < 0x20 \<Longrightarrow> (0xC0 + x) mod 0x20 = x"
    and "x < 0x10 \<Longrightarrow> (0xE0 + x) mod 0x10 = x"
    and "x < 0x08 \<Longrightarrow> (0xF0 + x) mod 0x08 = x"
    and "x < 0x40 \<Longrightarrow> (0x80 + x) mod 0x40 = x"
proof -
  have "(0x20 * 6 + x) mod 0x20 = x mod 0x20" by (rule mod_mult_self4)
  then show "x < 0x20 \<Longrightarrow> (0xC0 + x) mod 0x20 = x" by simp
  have "(0x10 * 14 + x) mod 0x10 = x mod 0x10" by (rule mod_mult_self4)
  then show "x < 0x10 \<Longrightarrow> (0xE0 + x) mod 0x10 = x" by simp
  have "(0x08 * 30 + x) mod 0x08 = x mod 0x08" by (rule mod_mult_self4)
  then show "x < 0x08 \<Longrightarrow> (0xF0 + x) mod 0x08 = x" by simp
  have "(0x40 * 2 + x) mod 0x40 = x mod 0x40" by (rule mod_mult_self4)
  then show "x < 0x40 \<Longrightarrow> (0x80 + x) mod 0x40 = x" by simp
qed

lemma digits64:
  fixes cp :: nat
  shows "cp div 0x1000 = cp div 0x40 div 0x40"
    and "cp div 0x40000 = cp div 0x40 div 0x40 div 0x40"
proof -
  have "cp div (0x40 * 0x40) = cp div 0x40 div 0x40"
    by (rule div_mult2_eq)
  then show "cp div 0x1000 = cp div 0x40 div 0x40" by simp
  have "cp div 0x40 div (0x40 * 0x40) = cp div 0x40 div 0x40 div 0x40"
    by (rule div_mult2_eq)
  moreover have "cp div (0x40 * 0x1000) = cp div 0x40 div 0x1000"
    by (rule div_mult2_eq)
  ultimately show "cp div 0x40000 = cp div 0x40 div 0x40 div 0x40" by simp
qed

text \<open>A number as its quotient by 64 and its last digit in base 64.\<close>

lemma base64_digit:
  fixes n :: nat
  obtains q r where "n = q * 0x40 + r" "r < 0x40" "n div 0x40 = q" "n mod 0x40 = r"
  by (metis div_mult_mod_eq mod_less_divisor zero_less_numeral)

lemma decode_bytes2:
  assumes "0x80 \<le> cp" "cp < 0x800"
  shows "utf8_decode decoder_start (utf8_bytes cp @ rest) = cp # utf8_decode decoder_start rest"
proof -
  obtain q c where d: "cp = q * 0x40 + c" "c < 0x40" "cp div 0x40 = q" "cp mod 0x40 = c"
    by (rule base64_digit)
  from d(1,2) assms have q: "2 \<le> q" "q < 0x20" by linarith+
  have b: "utf8_bytes cp = [of_nat (0xC0 + q), of_nat (0x80 + c)]"
    using assms by (simp add: utf8_bytes_def d(3,4) del: of_nat_add)
  have "utf8_decode decoder_start (of_nat (0xC0 + q) # of_nat (0x80 + c) # rest) =
          ((0xC0 + q) mod 0x20 * 0x40 + (0x80 + c) mod 0x40) # utf8_decode decoder_start rest"
    using q d(2) by (intro decode2) linarith+
  moreover have "(0xC0 + q) mod 0x20 * 0x40 + (0x80 + c) mod 0x40 = cp"
    using q d(2) by (simp add: mod_lead d(1))
  ultimately show ?thesis
    by (simp only: b append_Cons append_Nil)
qed

lemma decode_bytes3:
  assumes "0x800 \<le> cp" "cp < 0x10000" "cp < 0xD800 \<or> 0xDFFF < cp"
  shows "utf8_decode decoder_start (utf8_bytes cp @ rest) = cp # utf8_decode decoder_start rest"
proof -
  obtain q c where d: "cp = q * 0x40 + c" "c < 0x40" "cp div 0x40 = q" "cp mod 0x40 = c"
    by (rule base64_digit)
  obtain a b where e: "q = a * 0x40 + b" "b < 0x40" "q div 0x40 = a" "q mod 0x40 = b"
    by (rule base64_digit)
  from d(1,2) e(1,2) assms have a: "a < 0x10" "a = 0 \<longrightarrow> 0x20 \<le> b" "a = 0x0D \<longrightarrow> b < 0x20"
    by linarith+
  have bs: "utf8_bytes cp = [of_nat (0xE0 + a), of_nat (0x80 + b), of_nat (0x80 + c)]"
    using assms by (simp add: utf8_bytes_def digits64 d(3,4) e(3,4) del: of_nat_add)
  have "utf8_decode decoder_start
          (of_nat (0xE0 + a) # of_nat (0x80 + b) # of_nat (0x80 + c) # rest) =
        (((0xE0 + a) mod 0x10 * 0x40 + (0x80 + b) mod 0x40) * 0x40 + (0x80 + c) mod 0x40) #
        utf8_decode decoder_start rest"
    using a d(2) e(2) by (intro decode3) (auto split: if_splits)
  moreover have "((0xE0 + a) mod 0x10 * 0x40 + (0x80 + b) mod 0x40) * 0x40 + (0x80 + c) mod 0x40 = cp"
    using a d(2) e(2) by (simp add: mod_lead d(1) e(1))
  ultimately show ?thesis
    by (simp only: bs append_Cons append_Nil)
qed

lemma decode_bytes4:
  assumes "0x10000 \<le> cp" "cp < 0x110000"
  shows "utf8_decode decoder_start (utf8_bytes cp @ rest) = cp # utf8_decode decoder_start rest"
proof -
  obtain q c where d: "cp = q * 0x40 + c" "c < 0x40" "cp div 0x40 = q" "cp mod 0x40 = c"
    by (rule base64_digit)
  obtain r b where e: "q = r * 0x40 + b" "b < 0x40" "q div 0x40 = r" "q mod 0x40 = b"
    by (rule base64_digit)
  obtain z a where f: "r = z * 0x40 + a" "a < 0x40" "r div 0x40 = z" "r mod 0x40 = a"
    by (rule base64_digit)
  from d(1,2) e(1,2) f(1,2) assms
  have z: "z < 0x08" "z \<le> 4" "z = 0 \<longrightarrow> 0x10 \<le> a" "z = 4 \<longrightarrow> a < 0x10"
    by linarith+
  have bs: "utf8_bytes cp =
      [of_nat (0xF0 + z), of_nat (0x80 + a), of_nat (0x80 + b), of_nat (0x80 + c)]"
    using assms by (simp add: utf8_bytes_def digits64 d(3,4) e(3,4) f(3,4) del: of_nat_add)
  have "utf8_decode decoder_start
          (of_nat (0xF0 + z) # of_nat (0x80 + a) # of_nat (0x80 + b) # of_nat (0x80 + c) # rest) =
        ((((0xF0 + z) mod 0x08 * 0x40 + (0x80 + a) mod 0x40) * 0x40 + (0x80 + b) mod 0x40) * 0x40 +
          (0x80 + c) mod 0x40) #
        utf8_decode decoder_start rest"
    using z d(2) e(2) f(2) by (intro decode4) (auto split: if_splits)
  moreover have "(((0xF0 + z) mod 0x08 * 0x40 + (0x80 + a) mod 0x40) * 0x40 +
      (0x80 + b) mod 0x40) * 0x40 + (0x80 + c) mod 0x40 = cp"
    using z d(2) e(2) f(2) by (simp add: mod_lead d(1) e(1) f(1))
  ultimately show ?thesis
    by (simp only: bs append_Cons append_Nil)
qed

lemma decode_utf8_bytes:
  assumes "scalar cp"
  shows "utf8_decode decoder_start (utf8_bytes cp @ rest) = cp # utf8_decode decoder_start rest"
proof -
  consider "cp < 0x80" | "0x80 \<le> cp" "cp < 0x800" | "0x800 \<le> cp" "cp < 0x10000"
    | "0x10000 \<le> cp"
    by linarith
  then show ?thesis
  proof cases
    case 1
    then show ?thesis
      using decode1 [of cp rest] by (simp add: utf8_bytes_def)
  next
    case 2
    then show ?thesis by (rule decode_bytes2)
  next
    case 3
    with assms show ?thesis by (intro decode_bytes3) (simp_all add: scalar_def)
  next
    case 4
    with assms show ?thesis by (intro decode_bytes4) (simp_all add: scalar_def)
  qed
qed

lemma utf8_decode_concat:
  "list_all scalar cps \<Longrightarrow> utf8_decode decoder_start (concat (map utf8_bytes cps)) = cps"
  by (induction cps) (simp_all add: decode_utf8_bytes, simp add: decoder_start_def)

lemma surrogate_nat:
  "isHighSurrogate c \<longleftrightarrow> 0xD800 \<le> unat c \<and> unat c \<le> 0xDBFF"
  "isLowSurrogate c \<longleftrightarrow> 0xDC00 \<le> unat c \<and> unat c \<le> 0xDFFF"
  by (simp_all add: isHighSurrogate_def isLowSurrogate_def word_le_nat_alt)

lemma unat_unit_less: "unat (c :: code_unit) < 0x10000"
  using unsigned_less [of c] by simp

lemma lone_unit_scalar:
  assumes "\<not> isHighSurrogate c" "\<not> isLowSurrogate c"
  shows "scalar (lone_unit c)" and "utf16_units (lone_unit c) = [c]"
  using assms unat_unit_less [of c]
  by (auto simp: lone_unit_def scalar_def utf16_units_def surrogate_nat)

lemma pair_scalar:
  assumes "isHighSurrogate c" "isLowSurrogate d"
  shows "scalar (0x10000 + (unat c - 0xD800) * 0x400 + (unat d - 0xDC00))"
    and "utf16_units (0x10000 + (unat c - 0xD800) * 0x400 + (unat d - 0xDC00)) = [c, d]"
proof -
  define x where "x = unat c - 0xD800"
  define y where "y = unat d - 0xDC00"
  from assms have x: "x < 0x400" "unat c = 0xD800 + x" and y: "y < 0x400" "unat d = 0xDC00 + y"
    unfolding surrogate_nat x_def y_def by linarith+
  show "scalar (0x10000 + (unat c - 0xD800) * 0x400 + (unat d - 0xDC00))"
    unfolding x_def [symmetric] y_def [symmetric] using x(1) y(1) by (simp add: scalar_def)
  have "(x * 0x400 + y) div 0x400 = x" "(x * 0x400 + y) mod 0x400 = y"
    using y(1) by simp_all
  then have "utf16_units (0x10000 + x * 0x400 + y) = [of_nat (unat c), of_nat (unat d)]"
    by (simp add: utf16_units_def x(2) y(2) del: of_nat_add)
  then show "utf16_units (0x10000 + (unat c - 0xD800) * 0x400 + (unat d - 0xDC00)) = [c, d]"
    unfolding x_def [symmetric] y_def [symmetric] by simp
qed

lemma code_points_wellFormed:
  "wellFormed s \<Longrightarrow>
   list_all scalar (code_points s) \<and> concat (map utf16_units (code_points s)) = s"
  by (induction s rule: code_points.induct)
     (auto simp: lone_unit_scalar pair_scalar split: if_splits)

lemma code_points_no_BOM:
  assumes "wellFormed s" "s = [] \<or> hd s \<noteq> 0xFEFF"
  shows "code_points s = [] \<or> hd (code_points s) \<noteq> 0xFEFF"
proof (cases s)
  case Nil
  then show ?thesis by simp
next
  case (Cons c cs)
  with assms(2) have "unat c \<noteq> 0xFEFF"
    by (auto simp: word_unat_eq_iff)
  then have "lone_unit c \<noteq> 0xFEFF"
    by (simp add: lone_unit_def)
  then show ?thesis
    using Cons by (cases cs) auto
qed

lemma TextDecoder_decode_TextEncoder_encode:
  assumes "wellFormed s" "s = [] \<or> hd s \<noteq> 0xFEFF"
  shows "TextDecoder_decode (TextEncoder_encode s) = s"
proof -
  from assms(1) have sc: "list_all scalar (code_points s)"
    and u: "concat (map utf16_units (code_points s)) = s"
    by (simp_all add: code_points_wellFormed)
  have "utf8_decode decoder_start (TextEncoder_encode s) = code_points s"
    by (simp add: TextEncoder_encode_def utf8_decode_concat sc)
  moreover have "(case code_points s of [] \<Rightarrow> [] | c # cs \<Rightarrow> if c = 0xFEFF then cs else code_points s) =
      code_points s"
    using code_points_no_BOM [OF assms] by (cases "code_points s") auto
  ultimately show ?thesis
    by (simp add: TextDecoder_decode_def u)
qed

subsection \<open>Lines\<close>

lemma splitOn_not_Nil [simp]: "splitOn sep s \<noteq> []"
  by (induction s) (auto split: list.splits)

lemma splitOn_line: "sep \<notin> set l \<Longrightarrow> splitOn sep (l @ sep # rest) = l # splitOn sep rest"
  by (induction l) auto

lemma splitOn_lines:
  "list_all (\<lambda>l. sep \<notin> set l) ls \<Longrightarrow> ls \<noteq> [] \<Longrightarrow>
   splitOn sep (join [sep] ls @ sep # rest) = ls @ splitOn sep rest"
proof (induction ls)
  case Nil
  then show ?case by simp
next
  case (Cons x ys)
  show ?case
  proof (cases ys)
    case Nil
    with Cons.prems show ?thesis by (simp add: splitOn_line)
  next
    case (Cons y zs)
    with Cons.prems Cons.IH show ?thesis by (simp add: splitOn_line)
  qed
qed

lemma join_splitOn: "join [sep] (splitOn sep s) = s"
proof (induction s)
  case Nil
  then show ?case by simp
next
  case (Cons c cs)
  obtain l ls where sp: "splitOn sep cs = l # ls"
    by (cases "splitOn sep cs") auto
  with Cons show ?case
    by (cases ls) auto
qed

lemma code_points_wellFormed_append:
  "wellFormed xs \<Longrightarrow> code_points (xs @ ys) = code_points xs @ code_points ys"
proof (induction xs rule: code_points.induct)
  case (1 c d cs)
  then show ?case by (auto split: if_splits)
next
  case (2 c)
  then show ?case by (cases ys) auto
next
  case 3
  then show ?case by simp
qed

lemma TextEncoder_encode_wellFormed_append:
  "wellFormed xs \<Longrightarrow>
   TextEncoder_encode (xs @ ys) = TextEncoder_encode xs @ TextEncoder_encode ys"
  by (simp add: TextEncoder_encode_def code_points_wellFormed_append)

lemma wellFormed_append:
  "wellFormed xs \<Longrightarrow> wellFormed ys \<Longrightarrow> wellFormed (xs @ ys)"
proof (induction xs rule: wellFormed.induct)
  case (1 c d cs)
  then show ?case by (auto split: if_splits)
next
  case (2 c)
  then show ?case by (cases ys) auto
next
  case 3
  then show ?case by simp
qed

lemma wellFormed_units:
  "list_all (\<lambda>c. \<not> isHighSurrogate c \<and> \<not> isLowSurrogate c) xs \<Longrightarrow> wellFormed xs"
  by (induction xs rule: wellFormed.induct) auto

lemma wellFormed_hd:
  "wellFormed xs \<Longrightarrow> xs = [] \<or> \<not> isLowSurrogate (hd xs)"
  by (induction xs rule: wellFormed.induct) (auto split: if_splits simp: surrogate_nat)

lemma TextEncoder_encode_join:
  "list_all wellFormed ls \<Longrightarrow>
   TextEncoder_encode (join BYTE_LF ls @ rest) =
     join [0x0A] (map TextEncoder_encode ls) @ TextEncoder_encode rest"
proof (induction ls)
  case Nil
  then show ?case by simp
next
  case (Cons x ys)
  have lf: "wellFormed BYTE_LF" "TextEncoder_encode BYTE_LF = [0x0A]"
    by (simp_all add: encode_defs lit_defs)
  show ?case
  proof (cases ys)
    case Nil
    with Cons.prems show ?thesis
      by (simp add: TextEncoder_encode_wellFormed_append)
  next
    case (Cons y zs)
    with Cons.prems Cons.IH show ?thesis
      by (simp add: TextEncoder_encode_wellFormed_append lf)
  qed
qed

subsection \<open>UTF-8 of a text without a given ASCII character\<close>

lemma utf8_bytes_high:
  assumes "0x80 \<le> cp" "cp < 0x110000"
  shows "list_all (\<lambda>b. 0x80 \<le> unat b) (utf8_bytes cp)"
proof -
  have hi: "0x80 \<le> unat (of_nat n :: byte)" if "0x80 \<le> n" "n < 256" for n
    using that by (simp add: unat_byte)
  obtain q c where d: "cp = q * 0x40 + c" "c < 0x40" "cp div 0x40 = q" "cp mod 0x40 = c"
    by (rule base64_digit)
  obtain r b where e: "q = r * 0x40 + b" "b < 0x40" "q div 0x40 = r" "q mod 0x40 = b"
    by (rule base64_digit)
  obtain z a where f: "r = z * 0x40 + a" "a < 0x40" "r div 0x40 = z" "r mod 0x40 = a"
    by (rule base64_digit)
  consider "cp < 0x800" | "0x800 \<le> cp" "cp < 0x10000" | "0x10000 \<le> cp"
    by linarith
  then show ?thesis
  proof cases
    case 1
    with d(1,2) have "q < 0x20" by linarith
    then have "0x80 \<le> 0xC0 + q" "0xC0 + q < 256" "0x80 \<le> 0x80 + c" "0x80 + c < 256"
      using d(2) by linarith+
    then have "list_all (\<lambda>b. 0x80 \<le> unat b) [of_nat (0xC0 + q) :: byte, of_nat (0x80 + c)]"
      by (simp add: hi del: of_nat_add)
    then show ?thesis
      using 1 assms(1) by (simp add: utf8_bytes_def d(3,4) del: of_nat_add)
  next
    case 2
    with d(1,2) e(1,2) have "r < 0x10" by linarith
    then have "0x80 \<le> 0xE0 + r" "0xE0 + r < 256" "0x80 \<le> 0x80 + b" "0x80 + b < 256"
      "0x80 \<le> 0x80 + c" "0x80 + c < 256"
      using d(2) e(2) by linarith+
    then have "list_all (\<lambda>b. 0x80 \<le> unat b)
        [of_nat (0xE0 + r) :: byte, of_nat (0x80 + b), of_nat (0x80 + c)]"
      by (simp add: hi del: of_nat_add)
    then show ?thesis
      using 2 by (simp add: utf8_bytes_def digits64 d(3,4) e(3,4) del: of_nat_add)
  next
    case 3
    with d(1,2) e(1,2) f(1,2) assms(2) have "z < 0x08" by linarith
    then have "0x80 \<le> 0xF0 + z" "0xF0 + z < 256" "0x80 \<le> 0x80 + a" "0x80 + a < 256"
      "0x80 \<le> 0x80 + b" "0x80 + b < 256" "0x80 \<le> 0x80 + c" "0x80 + c < 256"
      using d(2) e(2) f(2) by linarith+
    then have "list_all (\<lambda>b. 0x80 \<le> unat b)
        [of_nat (0xF0 + z) :: byte, of_nat (0x80 + a), of_nat (0x80 + b), of_nat (0x80 + c)]"
      by (simp add: hi del: of_nat_add)
    then show ?thesis
      using 3 by (simp add: utf8_bytes_def digits64 d(3,4) e(3,4) f(3,4) del: of_nat_add)
  qed
qed

lemma code_points_bound: "list_all (\<lambda>cp. cp < 0x110000) (code_points s)"
proof (induction s rule: code_points.induct)
  case (1 c d cs)
  have "unat c < 0x10000" "unat d < 0x10000"
    by (rule unat_unit_less)+
  then have "isHighSurrogate c \<Longrightarrow> isLowSurrogate d \<Longrightarrow>
      0x10000 + (unat c - 0xD800) * 0x400 + (unat d - 0xDC00) < 0x110000"
    unfolding surrogate_nat by linarith
  moreover have "lone_unit c < 0x110000"
    using unat_unit_less [of c] by (simp add: lone_unit_def)
  ultimately show ?case using 1 by auto
next
  case (2 c)
  show ?case using unat_unit_less [of c] by (simp add: lone_unit_def)
next
  case 3
  show ?case by simp
qed

lemma code_points_ascii:
  "a < 0x80 \<Longrightarrow> a \<in> set (code_points s) \<Longrightarrow> (of_nat a :: code_unit) \<in> set s"
proof (induction s rule: code_points.induct)
  case (1 c d cs)
  have "lone_unit c = a \<Longrightarrow> of_nat a = c"
    using 1(3) by (auto simp: lone_unit_def split: if_splits)
  with 1 show ?case by (auto split: if_splits)
next
  case (2 c)
  then show ?case by (auto simp: lone_unit_def split: if_splits)
next
  case 3
  then show ?case by simp
qed

lemma TextEncoder_encode_ascii:
  assumes "a < 0x80" and "(of_nat a :: code_unit) \<notin> set s"
  shows "(of_nat a :: byte) \<notin> set (TextEncoder_encode s)"
proof
  assume "(of_nat a :: byte) \<in> set (TextEncoder_encode s)"
  then obtain cp where cp: "cp \<in> set (code_points s)" "(of_nat a :: byte) \<in> set (utf8_bytes cp)"
    by (auto simp: TextEncoder_encode_def)
  have ua: "unat (of_nat a :: byte) = a"
    using assms(1) by (simp add: unat_byte)
  from cp(1) code_points_bound [of s] have b: "cp < 0x110000"
    by (simp add: list_all_iff)
  have "cp < 0x80"
  proof (rule ccontr)
    assume "\<not> cp < 0x80"
    with b have "list_all (\<lambda>b. 0x80 \<le> unat b) (utf8_bytes cp)"
      by (intro utf8_bytes_high) simp_all
    with cp(2) have "0x80 \<le> unat (of_nat a :: byte)"
      by (simp add: list_all_iff)
    with ua assms(1) show False by simp
  qed
  with cp(2) have "(of_nat a :: byte) = of_nat cp"
    by (simp add: utf8_bytes_def)
  then have "unat (of_nat a :: byte) = unat (of_nat cp :: byte)" by simp
  with ua \<open>cp < 0x80\<close> have "a = cp" by (simp add: unat_byte)
  with cp(1) assms(1) have "(of_nat a :: code_unit) \<in> set s"
    by (simp add: code_points_ascii)
  with assms(2) show False by simp
qed

lemma encode_no_LF: "0x0A \<notin> set s \<Longrightarrow> 0x0A \<notin> set (TextEncoder_encode s)"
  using TextEncoder_encode_ascii [of "0x0A" s] by simp

lemma encode_no_colon: "0x3A \<notin> set s \<Longrightarrow> 0x3A \<notin> set (TextEncoder_encode s)"
  using TextEncoder_encode_ascii [of "0x3A" s] by simp

lemma encode_no_NUL: "0x00 \<notin> set s \<Longrightarrow> 0x00 \<notin> set (TextEncoder_encode s)"
  using TextEncoder_encode_ascii [of "0" s] by simp

subsection \<open>Decimal numbers and well-formed values\<close>

lemma trim_no_BOM: "trim s = s \<Longrightarrow> s = [] \<or> hd s \<noteq> 0xFEFF"
  by (auto simp: trim_self_iff isWhiteSpace_def)

lemma isDigit_nat: "isDigit c \<longleftrightarrow> 0x30 \<le> unat c \<and> unat c \<le> 0x39"
  by (simp add: isDigit_def word_le_nat_alt)

lemma isDigit_unit:
  assumes "isDigit c"
  shows "\<not> isHighSurrogate c" "\<not> isLowSurrogate c" "escapeUnit True True True c = [c]"
proof -
  from assms have u: "0x30 \<le> unat c" "unat c \<le> 0x39"
    by (simp_all add: isDigit_nat)
  then show "\<not> isHighSurrogate c" "\<not> isLowSurrogate c"
    by (simp_all add: surrogate_nat)
  have "unat c \<noteq> unat (0x5C :: code_unit)" "unat c \<noteq> unat (0x0D :: code_unit)"
    "unat c \<noteq> unat (0x0A :: code_unit)" "unat c \<noteq> unat (0x3A :: code_unit)"
    using u by simp_all
  then have "c \<noteq> 0x5C" "c \<noteq> 0x0D" "c \<noteq> 0x0A" "c \<noteq> 0x3A"
    by metis+
  then show "escapeUnit True True True c = [c]"
    by (simp add: escapeUnit_def)
qed

lemma digit_unit: "k < 10 \<Longrightarrow> isDigit (of_nat (48 + k)) \<and> unat (of_nat (48 + k) :: code_unit) = 48 + k"
proof -
  assume "k < 10"
  then have u: "unat (of_nat (48 + k) :: code_unit) = 48 + k"
    unfolding unat_of_nat by simp
  have "isDigit (of_nat (48 + k))"
    unfolding isDigit_nat u using \<open>k < 10\<close> by simp
  with u show ?thesis by (simp del: of_nat_add)
qed

lemma digitsValue_snoc: "digitsValue (xs @ [c]) = 10 * digitsValue xs + (unat c - 48)"
  by (simp add: digitsValue_def)

lemma number_toString_digits:
  "number_toString n \<noteq> [] \<and> list_all isDigit (number_toString n) \<and>
   digitsValue (number_toString n) = n"
proof (induction n rule: number_toString.induct)
  case (1 n)
  show ?case
  proof (cases "n < 10")
    case True
    from digit_unit [OF True] have "isDigit (of_nat (48 + n))"
      "unat (of_nat (48 + n) :: code_unit) - 48 = n"
      by simp_all
    moreover have "number_toString n = [of_nat (48 + n)]"
      using True by (subst number_toString.simps) simp
    ultimately show ?thesis
      by (simp add: digitsValue_def del: of_nat_add)
  next
    case False
    have m: "n mod 10 < 10" by simp
    from digit_unit [OF m] have "isDigit (of_nat (48 + n mod 10))"
      "unat (of_nat (48 + n mod 10) :: code_unit) - 48 = n mod 10"
      by simp_all
    moreover have "number_toString n = number_toString (n div 10) @ [of_nat (48 + n mod 10)]"
      using False by (subst number_toString.simps) simp
    ultimately show ?thesis
      using 1 [OF False] by (simp add: digitsValue_snoc del: of_nat_add)
  qed
qed

lemma hdrValueEscape_digits: "list_all isDigit v \<Longrightarrow> hdrValueEscape v = v"
  by (induction v) (simp_all add: hdrValueEscape_conv isDigit_unit)

lemma wellFormed_digits: "list_all isDigit v \<Longrightarrow> wellFormed v"
  by (rule wellFormed_units) (simp add: list_all_iff isDigit_unit)

lemma wellFormed_escapeUnit:
  "\<not> isHighSurrogate c \<Longrightarrow> \<not> isLowSurrogate c \<Longrightarrow> wellFormed (escapeUnit cr lf col c)"
  by (auto simp: escapeUnit_def isHighSurrogate_def isLowSurrogate_def)

lemma escapeUnit_surrogate:
  "isHighSurrogate c \<or> isLowSurrogate c \<Longrightarrow> escapeUnit cr lf col c = [c]"
  by (auto simp: escapeUnit_def isHighSurrogate_def isLowSurrogate_def)

lemma wellFormed_hdrValueEscape: "wellFormed v \<Longrightarrow> wellFormed (hdrValueEscape v)"
proof (induction v rule: wellFormed.induct)
  case (1 c d cs)
  show ?case
  proof (cases "isHighSurrogate c \<and> isLowSurrogate d")
    case True
    with 1 show ?thesis
      by (simp add: hdrValueEscape_conv escapeUnit_surrogate)
  next
    case False
    with 1 have c: "\<not> isHighSurrogate c" "\<not> isLowSurrogate c" and r: "wellFormed (hdrValueEscape (d # cs))"
      by auto
    have "hdrValueEscape (c # d # cs) = escapeUnit True True True c @ hdrValueEscape (d # cs)"
      by (simp add: hdrValueEscape_conv)
    with c r show ?thesis
      by (simp add: wellFormed_append wellFormed_escapeUnit)
  qed
next
  case (2 c)
  then show ?case by (simp add: hdrValueEscape_conv wellFormed_escapeUnit)
next
  case 3
  then show ?case by (simp add: hdrValueEscape_conv)
qed

subsection \<open>The splitter on the bytes of a serialized text\<close>

lemma splitHeaderLine_line:
  assumes "0x3A \<notin> set n" "wellFormed n" "n = [] \<or> hd n \<noteq> 0xFEFF"
    and "wellFormed v" "v = [] \<or> hd v \<noteq> 0xFEFF"
  shows "splitHeaderLine (TextEncoder_encode (n @ js '':'' @ v)) = (n, v)"
proof -
  have c: "wellFormed (js '':'')" "TextEncoder_encode (js '':'') = [0x3A]"
    by (simp_all add: encode_defs lit_defs)
  have e: "TextEncoder_encode (n @ js '':'' @ v) =
      TextEncoder_encode n @ 0x3A # TextEncoder_encode v"
    using assms(2) c by (simp add: TextEncoder_encode_wellFormed_append)
  have nc: "0x3A \<notin> set (TextEncoder_encode n)"
    using assms(1) by (rule encode_no_colon)
  have "takeWhile (\<lambda>b. b \<noteq> 0x3A) (TextEncoder_encode n @ 0x3A # TextEncoder_encode v) =
      TextEncoder_encode n"
    using nc by (simp add: takeWhile_append)
  moreover have "drop 1 (dropWhile (\<lambda>b. b \<noteq> 0x3A)
      (TextEncoder_encode n @ 0x3A # TextEncoder_encode v)) = TextEncoder_encode v"
    using nc by (simp add: dropWhile_append)
  ultimately show ?thesis
    unfolding splitHeaderLine_def e
    by (simp only: TextDecoder_decode_TextEncoder_encode [OF assms(2,3)]
        TextDecoder_decode_TextEncoder_encode [OF assms(4,5)])
qed

text \<open>
  The splitter on the bytes of a text laid out as the wire format says, when the
  command, the names and the values are well-formed and hold no line feed (and the
  names no colon): it gives the command, the header lines, and the body up to the
  declared length, or up to the first null byte when no length is declared.
\<close>

lemma split_layout:
  assumes "0x0A \<notin> set cmd" "wellFormed cmd" "cmd = [] \<or> hd cmd \<noteq> 0xFEFF"
    and "list_all (\<lambda>(n, v). 0x0A \<notin> set n \<and> 0x3A \<notin> set n \<and> 0x0A \<notin> set v \<and>
           wellFormed n \<and> (n = [] \<or> hd n \<noteq> 0xFEFF) \<and>
           wellFormed v \<and> (v = [] \<or> hd v \<noteq> 0xFEFF)) pairs"
  shows "split (TextEncoder_encode
           (join BYTE_LF (cmd # map (\<lambda>(n, v). n @ js '':'' @ v) pairs) @
            BYTE_LF @ BYTE_LF @ str @ BYTE_NULL)) =
         \<lparr> raw_command = cmd, raw_headers = pairs,
           raw_binaryBody =
             Some (case declaredLength pairs of
                     Some n \<Rightarrow> take n (TextEncoder_encode (str @ BYTE_NULL))
                   | None \<Rightarrow> takeWhile (\<lambda>b. b \<noteq> 0x00) (TextEncoder_encode (str @ BYTE_NULL))) \<rparr>"
proof -
  let ?hl = "map (\<lambda>(n, v). n @ js '':'' @ v) pairs"
  let ?bl = "map TextEncoder_encode ?hl"
  let ?after = "TextEncoder_encode (str @ BYTE_NULL)"
  let ?X = "splitOn 0x0A ?after"
  have col: "wellFormed (js '':'')" "0x0A \<notin> set (js '':'')"
    by (simp_all add: lit_defs isHighSurrogate_def isLowSurrogate_def)
  have lf: "wellFormed BYTE_LF" "TextEncoder_encode BYTE_LF = [0x0A]"
    by (simp_all add: encode_defs lit_defs)
  have wf: "list_all wellFormed (cmd # ?hl)"
    using assms(2,4) col(1) by (auto simp: list_all_iff wellFormed_append)
  have nolf: "list_all (\<lambda>l. 0x0A \<notin> set l) (cmd # ?hl)"
    using assms(1,4) col(2) by (auto simp: list_all_iff)
  have enc: "TextEncoder_encode (join BYTE_LF (cmd # ?hl) @ BYTE_LF @ BYTE_LF @ str @ BYTE_NULL) =
      join [0x0A] (TextEncoder_encode cmd # ?bl) @ 0x0A # 0x0A # ?after"
    using TextEncoder_encode_join [OF wf, of "BYTE_LF @ BYTE_LF @ str @ BYTE_NULL"] lf
    by (simp add: TextEncoder_encode_wellFormed_append)
  have blf: "list_all (\<lambda>l. 0x0A \<notin> set l) (TextEncoder_encode cmd # ?bl)"
    using nolf by (simp add: list_all_iff encode_no_LF)
  have "splitOn 0x0A (join [0x0A] (TextEncoder_encode cmd # ?bl) @ 0x0A # (0x0A # ?after)) =
      (TextEncoder_encode cmd # ?bl) @ splitOn 0x0A (0x0A # ?after)"
    using blf by (rule splitOn_lines) simp
  then have sp: "splitOn 0x0A (join [0x0A] (TextEncoder_encode cmd # ?bl) @ 0x0A # 0x0A # ?after) =
      TextEncoder_encode cmd # (?bl @ [] # ?X)"
    by simp
  have ne: "\<And>l. l \<in> set ?bl \<Longrightarrow> l \<noteq> []"
  proof -
    fix l assume "l \<in> set ?bl"
    then obtain n v where "(n, v) \<in> set pairs" and l: "l = TextEncoder_encode (n @ js '':'' @ v)"
      by auto
    with assms(4) have "wellFormed n" by (auto simp: list_all_iff)
    then have "l = TextEncoder_encode n @ TextEncoder_encode (js '':'' @ v)"
      unfolding l by (rule TextEncoder_encode_wellFormed_append)
    also have "\<dots> = TextEncoder_encode n @ TextEncoder_encode (js '':'') @ TextEncoder_encode v"
      using col(1) by (simp add: TextEncoder_encode_wellFormed_append)
    finally show "l \<noteq> []" by (simp add: encode_defs lit_defs)
  qed
  have "takeWhile (\<lambda>l. l \<noteq> []) (?bl @ [] # ?X) = ?bl @ takeWhile (\<lambda>l. l \<noteq> []) ([] # ?X)"
    by (rule takeWhile_append2) (rule ne)
  then have tw: "takeWhile (\<lambda>l. l \<noteq> []) (?bl @ [] # ?X) = ?bl"
    by simp
  have "dropWhile (\<lambda>l. l \<noteq> []) (?bl @ [] # ?X) = dropWhile (\<lambda>l. l \<noteq> []) ([] # ?X)"
    by (rule dropWhile_append2) (rule ne)
  then have dw: "dropWhile (\<lambda>l. l \<noteq> []) (?bl @ [] # ?X) = [] # ?X"
    by simp
  have one: "splitHeaderLine (TextEncoder_encode ((\<lambda>(n, v). n @ js '':'' @ v) p)) = p"
    if "p \<in> set pairs" for p
  proof -
    obtain n v where p: "p = (n, v)" by (cases p)
    note P = assms(4) [unfolded list_all_iff, rule_format, OF that, unfolded p prod.case]
    from P have "0x3A \<notin> set n" "wellFormed n" "n = [] \<or> hd n \<noteq> 0xFEFF"
      "wellFormed v" "v = [] \<or> hd v \<noteq> 0xFEFF"
      by simp_all
    then have "splitHeaderLine (TextEncoder_encode (n @ js '':'' @ v)) = (n, v)"
      by (rule splitHeaderLine_line)
    then show ?thesis unfolding p by simp
  qed
  have "map (\<lambda>p. splitHeaderLine (TextEncoder_encode ((\<lambda>(n, v). n @ js '':'' @ v) p))) pairs =
      pairs"
    by (rule map_idI) (rule one)
  then have hl: "map splitHeaderLine ?bl = pairs"
    by (simp add: comp_def)
  have cm: "TextDecoder_decode (TextEncoder_encode cmd) = cmd"
    using assms(2,3) by (rule TextDecoder_decode_TextEncoder_encode)
  show ?thesis
    unfolding enc split_def sp
    by (simp only: list.case tw dw hl Let_def drop_Suc_Cons drop_0 One_nat_def join_splitOn cm)
qed

lemma digits_no_BOM: "list_all isDigit v \<Longrightarrow> v = [] \<or> hd v \<noteq> 0xFEFF"
  by (cases v) (auto simp: isDigit_def)

lemma declaredLength_digits:
  "map_of hs (js ''content-length'') = Some (number_toString n) \<Longrightarrow> declaredLength hs = Some n"
  by (simp add: declaredLength_def number_toString_digits)

lemma map_of_keys:
  "map_of (map (\<lambda>n. (n, f n)) ks) k = (if k \<in> set ks then Some (f k) else None)"
  by (induction ks) auto

lemma map_of_sent_keys:
  "map_of (map (\<lambda>n. (n, toStr (map_of h n))) (Object_keys h)) k = map_of h k"
proof (cases "map_of h k")
  case None
  then have "k \<notin> set (Object_keys h)"
    by (simp add: set_Object_keys map_of_eq_None_iff)
  with None show ?thesis by (simp add: map_of_keys)
next
  case (Some v)
  then have "k \<in> set (Object_keys h)"
    by (metis set_Object_keys map_of_eq_None_iff option.distinct(1))
  with Some show ?thesis by (simp add: map_of_keys toStr_def)
qed

lemma sent_entry:
  assumes "n \<in> set (Object_keys (headersSent this))"
  shows "(n, toStr (map_of (headersSent this) n)) \<in> set (headers this)"
proof -
  from assms have "map_of (headersSent this) n \<noteq> None"
    by (simp add: set_Object_keys map_of_eq_None_iff)
  then obtain v where v: "map_of (headersSent this) n = Some v" by auto
  then have "(n, v) \<in> set (headersSent this)"
    by (rule map_of_SomeD)
  then have "(n, v) \<in> set (headers this)"
    by (auto simp: headersSent_def AList.delete_eq split: if_splits)
  with v show ?thesis by (simp add: toStr_def)
qed

lemma headerLines_escaped:
  assumes "escaping (escapeHeaderValues this) (command this)"
  shows "headerLines this =
     map (\<lambda>(n, v). n @ js '':'' @ v)
       (map (\<lambda>n. (n, hdrValueEscape (toStr (map_of (headersSent this) n))))
          (Object_keys (headersSent this)))"
  using assms by (simp add: headerLines_def headerLine_def)

lemma trim_content_length: "trim (js ''content-length'') = js ''content-length''"
  by (simp add: trim_self_iff js_def isWhiteSpace_def)

lemma serialize_text:
  assumes "params_binaryBody p = None"
  shows "serialize (Frame p) =
     Inr (WireText (fst (serializeCmdAndHeaders (Frame p)) @
            (case params_body p of None \<Rightarrow> [] | Some s \<Rightarrow> s) @ BYTE_NULL),
          snd (serializeCmdAndHeaders (Frame p)))"
  using assms
  by (simp add: serialize_def case_prod_unfold serializeCmdAndHeaders_frame Frame_fields toStr_def)

lemma fromRawFrame_frame:
  "command (fst (fromRawFrame r esc)) = raw_command r"
  "isBinaryBody (fst (fromRawFrame r esc)) = (raw_binaryBody r \<noteq> None)"
  "u_binaryBody (fst (fromRawFrame r esc)) = raw_binaryBody r"
  "raw_binaryBody r \<noteq> None \<Longrightarrow> u_body (fst (fromRawFrame r esc)) = None"
  by (auto simp: fromRawFrame_def Let_def Frame_def split: option.splits)

lemma bodyLength_text:
  "params_binaryBody p = None \<Longrightarrow>
   fst (bodyLength (Frame p)) =
     length (TextEncoder_encode (case params_body p of None \<Rightarrow> [] | Some s \<Rightarrow> s))"
  by (simp add: Frame_def bodyLength_def binaryBody_def)

lemma split_serialized:
  assumes tb: "params_binaryBody p = None"
    and esc: "escaping (escapeHeaderValues (Frame p)) (command (Frame p))"
    and cmd: "0x0A \<notin> set (params_command p)" "wellFormed (params_command p)"
      "params_command p = [] \<or> hd (params_command p) \<noteq> 0xFEFF"
    and hdrs: "list_all (\<lambda>(n, v). 0x0A \<notin> set n \<and> 0x3A \<notin> set n \<and> trim n = n \<and> wellFormed n \<and>
           trim v = v \<and> clashFree v \<and> wellFormed v) (headers (Frame p))"
    and str: "str = (case params_body p of None \<Rightarrow> [] | Some s \<Rightarrow> s)"
    and wf: "wellFormed str"
    and nul: "0x00 \<notin> set str \<or> \<not> skipContentLengthHeader (Frame p)"
    and own: "case map_of (headersSent (Frame p)) (js ''content-length'') of
                None \<Rightarrow> True
              | Some v \<Rightarrow> v = number_toString (length (TextEncoder_encode str))"
  shows "\<exists>cl.
     split (TextEncoder_encode (fst (serializeCmdAndHeaders (Frame p)) @ str @ BYTE_NULL)) =
       \<lparr> raw_command = params_command p,
         raw_headers =
           map (\<lambda>n. (n, hdrValueEscape (toStr (map_of (headersSent (Frame p)) n))))
             (Object_keys (headersSent (Frame p))) @ map (\<lambda>d. (js ''content-length'', d)) cl,
         raw_binaryBody = Some (TextEncoder_encode str) \<rparr> \<and>
     map (\<lambda>h. (trim (fst h), hdrValueUnEscape (trim (snd h))))
       (map (\<lambda>n. (n, hdrValueEscape (toStr (map_of (headersSent (Frame p)) n))))
          (Object_keys (headersSent (Frame p)))) =
     map (\<lambda>n. (n, toStr (map_of (headersSent (Frame p)) n))) (Object_keys (headersSent (Frame p)))"
proof -
  let ?F = "Frame p"
  let ?hs = "headersSent ?F"
  let ?CL = "js ''content-length''"
  let ?L = "length (TextEncoder_encode str)"
  let ?pairs = "map (\<lambda>n. (n, hdrValueEscape (toStr (map_of ?hs n)))) (Object_keys ?hs)"
  let ?ok = "\<lambda>(n, v). 0x0A \<notin> set n \<and> 0x3A \<notin> set n \<and> 0x0A \<notin> set v \<and>
           wellFormed n \<and> (n = [] \<or> hd n \<noteq> 0xFEFF) \<and>
           wellFormed v \<and> (v = [] \<or> hd v \<noteq> 0xFEFF)"
  define pushed where "pushed \<longleftrightarrow> ?L \<noteq> 0 \<and> \<not> skipContentLengthHeader ?F"
  define cl where "cl = (if pushed then [number_toString ?L] else [])"
  let ?cl = "map (\<lambda>d. (?CL, d)) cl"
  have len: "fst (bodyLength ?F) = ?L"
    using tb by (simp add: bodyLength_text str)
  have bin: "\<not> isBinaryBody ?F"
    using tb by (simp add: Frame_fields)
  have ent: "\<And>n. n \<in> set (Object_keys ?hs) \<Longrightarrow>
      0x0A \<notin> set n \<and> 0x3A \<notin> set n \<and> trim n = n \<and> wellFormed n \<and>
      trim (toStr (map_of ?hs n)) = toStr (map_of ?hs n) \<and> clashFree (toStr (map_of ?hs n)) \<and>
      wellFormed (toStr (map_of ?hs n))"
    using hdrs sent_entry [of _ ?F] by (fastforce simp: list_all_iff)
  have cll: "js ''content-length:'' = ?CL @ js '':''"
    by (simp add: js_def)
  have ser: "fst (serializeCmdAndHeaders ?F) =
      join BYTE_LF (params_command p # map (\<lambda>(n, v). n @ js '':'' @ v) (?pairs @ ?cl)) @
      BYTE_LF @ BYTE_LF"
    using bin
    by (simp add: serializeCmdAndHeaders_text headerLines_escaped [OF esc] cl_def pushed_def cll
        len Frame_fields(1))
  have ok0: "list_all ?ok ?pairs"
    using ent
    by (simp add: list_all_iff hdrValueEscape_no_LF wellFormed_hdrValueEscape trim_no_BOM
        trim_hdrValueEscape)
  have lit: "0x0A \<notin> set ?CL \<and> 0x3A \<notin> set ?CL \<and> wellFormed ?CL \<and> hd ?CL \<noteq> 0xFEFF"
    by (simp add: js_def isHighSurrogate_def isLowSurrogate_def)
  have dig: "0x0A \<notin> set (number_toString ?L)" "wellFormed (number_toString ?L)"
    by (simp_all add: number_toString_no_LF wellFormed_digits number_toString_digits)
  have dig': "number_toString ?L = [] \<or> hd (number_toString ?L) \<noteq> 0xFEFF"
    by (rule digits_no_BOM) (simp add: number_toString_digits)
  have okc: "list_all ?ok ?cl"
    using lit dig dig' by (simp add: cl_def)
  from ok0 okc have ok: "list_all ?ok (?pairs @ ?cl)"
    by simp
  have sp: "split (TextEncoder_encode (fst (serializeCmdAndHeaders ?F) @ str @ BYTE_NULL)) =
       \<lparr> raw_command = params_command p, raw_headers = ?pairs @ ?cl,
         raw_binaryBody =
           Some (case declaredLength (?pairs @ ?cl) of
                   Some n \<Rightarrow> take n (TextEncoder_encode (str @ BYTE_NULL))
                 | None \<Rightarrow> takeWhile (\<lambda>b. b \<noteq> 0x00) (TextEncoder_encode (str @ BYTE_NULL))) \<rparr>"
    using split_layout [OF cmd ok, of str] by (simp add: ser)
  have after: "TextEncoder_encode (str @ BYTE_NULL) = TextEncoder_encode str @ [0x00]"
    using wf by (simp add: TextEncoder_encode_wellFormed_append) (simp add: encode_defs lit_defs)
  have body: "(case declaredLength (?pairs @ ?cl) of
                   Some n \<Rightarrow> take n (TextEncoder_encode str @ [0x00])
                 | None \<Rightarrow> takeWhile (\<lambda>b. b \<noteq> 0x00) (TextEncoder_encode str @ [0x00])) =
      TextEncoder_encode str"
  proof (cases "map_of ?hs ?CL")
    case (Some v)
    with own have v: "v = number_toString ?L" by simp
    from Some have "?CL \<in> set (Object_keys ?hs)"
      by (metis set_Object_keys map_of_eq_None_iff option.distinct(1))
    then have "map_of ?pairs ?CL = Some (hdrValueEscape (toStr (map_of ?hs ?CL)))"
      by (simp add: map_of_keys)
    then have "map_of (?pairs @ ?cl) ?CL = Some (number_toString ?L)"
      by (simp add: Some v toStr_def hdrValueEscape_digits number_toString_digits)
    then have "declaredLength (?pairs @ ?cl) = Some ?L"
      by (rule declaredLength_digits)
    then show ?thesis by simp
  next
    case None
    then have "?CL \<notin> set (Object_keys ?hs)"
      by (simp add: set_Object_keys map_of_eq_None_iff)
    then have no: "map_of ?pairs ?CL = None"
      by (simp add: map_of_keys)
    show ?thesis
    proof (cases pushed)
      case True
      with no have "map_of (?pairs @ ?cl) ?CL = Some (number_toString ?L)"
        by (simp add: cl_def map_add_def)
      then have "declaredLength (?pairs @ ?cl) = Some ?L"
        by (rule declaredLength_digits)
      then show ?thesis by simp
    next
      case False
      with no have "map_of (?pairs @ ?cl) ?CL = None"
        by (simp add: cl_def)
      then have d: "declaredLength (?pairs @ ?cl) = None"
        unfolding declaredLength_def by (simp only: option.case)
      have "0x00 \<notin> set (TextEncoder_encode str)"
      proof (cases "?L = 0")
        case True
        then show ?thesis by simp
      next
        case nz: False
        with False have "skipContentLengthHeader ?F" by (simp add: pushed_def)
        with nul have "0x00 \<notin> set str" by simp
        then show ?thesis by (rule encode_no_NUL)
      qed
      then show ?thesis
        by (simp add: d takeWhile_append)
    qed
  qed
  have un: "map (\<lambda>h. (trim (fst h), hdrValueUnEscape (trim (snd h)))) ?pairs =
     map (\<lambda>n. (n, toStr (map_of ?hs n))) (Object_keys ?hs)"
    using ent by (simp add: trim_hdrValueEscape hdrValueUnEscape_hdrValueEscape)
  from sp have "split (TextEncoder_encode (fst (serializeCmdAndHeaders ?F) @ str @ BYTE_NULL)) =
       \<lparr> raw_command = params_command p, raw_headers = ?pairs @ ?cl,
         raw_binaryBody = Some (TextEncoder_encode str) \<rparr>"
    unfolding after body .
  with un show ?thesis by blast
qed

section \<open>The claims\<close>

text \<open>
  C1. Unescaping is claimed to be the inverse of escaping on every string. It is not:
  the value made of a backslash and the letter \<open>r\<close> is escaped to two backslashes and
  an \<open>r\<close>, and \<open>hdrValueUnEscape\<close>, which replaces the pair backslash-\<open>r\<close> before it
  looks for doubled backslashes, turns that into a backslash and a carriage return.
  The same happens inside a longer value, such as \<open>C\<close>, colon, backslash, \<open>r\<close>.
\<close>

theorem hdrValueUnEscape_backslash_r:
  "hdrValueEscape [0x5C, 0x72] = [0x5C, 0x5C, 0x72] \<and>
   hdrValueUnEscape (hdrValueEscape [0x5C, 0x72]) = [0x5C, 0x0D] \<and>
   hdrValueUnEscape (hdrValueEscape [0x5C, 0x72]) \<noteq> [0x5C, 0x72] \<and>
   hdrValueEscape [0x43, 0x3A, 0x5C, 0x72] = [0x43, 0x5C, 0x63, 0x5C, 0x5C, 0x72] \<and>
   hdrValueUnEscape (hdrValueEscape [0x43, 0x3A, 0x5C, 0x72]) = [0x43, 0x3A, 0x5C, 0x0D]"
  by (simp add: hdrValueUnEscape_def hdrValueEscape_def)

text \<open>
  C2, as stated: a content-length line is appended unless the body is an empty text
  and \<open>skipContentLengthHeader\<close> is set. A text body of one byte with
  \<open>skipContentLengthHeader\<close> set gets no such line, and neither does an empty text
  body with \<open>skipContentLengthHeader\<close> not set: both header blocks are the command
  and the two line feeds.
\<close>

theorem text_body_without_content_length:
  "fst (bodyLength (Frame
     \<lparr> params_command = js ''SEND'', params_headers = None, params_body = Some (js ''a''),
       params_binaryBody = None, params_escapeHeaderValues = None,
       params_skipContentLengthHeader = Some True \<rparr>)) = 1 \<and>
   fst (serializeCmdAndHeaders (Frame
     \<lparr> params_command = js ''SEND'', params_headers = None, params_body = Some (js ''a''),
       params_binaryBody = None, params_escapeHeaderValues = None,
       params_skipContentLengthHeader = Some True \<rparr>)) = js ''SEND'' @ BYTE_LF @ BYTE_LF \<and>
   fst (bodyLength (Frame
     \<lparr> params_command = js ''SEND'', params_headers = None, params_body = None,
       params_binaryBody = None, params_escapeHeaderValues = None,
       params_skipContentLengthHeader = Some False \<rparr>)) = 0 \<and>
   fst (serializeCmdAndHeaders (Frame
     \<lparr> params_command = js ''SEND'', params_headers = None, params_body = None,
       params_binaryBody = None, params_escapeHeaderValues = None,
       params_skipContentLengthHeader = Some False \<rparr>)) = js ''SEND'' @ BYTE_LF @ BYTE_LF"
  by (simp add: frame_defs object_defs encode_defs lit_defs)

text \<open>
  C2, amended: after the lines of the headers, serialization appends the line
  \<open>content-length:N\<close>, \<open>N\<close> the byte length of the body, exactly when the body is
  binary, or the body is a text that is not empty and \<open>skipContentLengthHeader\<close> is
  not set; otherwise nothing is appended.
\<close>

theorem serializeCmdAndHeaders_content_length:
  "fst (serializeCmdAndHeaders this) =
     join BYTE_LF (command this # headerLines this @
       (if isBinaryBody this \<or> (fst (bodyLength this) \<noteq> 0 \<and> \<not> skipContentLengthHeader this)
        then [js ''content-length:'' @ number_toString (fst (bodyLength this))] else [])) @
     BYTE_LF @ BYTE_LF"
  by (simp add: serializeCmdAndHeaders_def Let_def isBodyEmpty_conv headerLines_def
      headersSent_def case_prod_unfold)

theorem serializeCmdAndHeaders_content_length_witness:
  "fst (serializeCmdAndHeaders (Frame
     \<lparr> params_command = js ''SEND'', params_headers = Some [(js ''a'', js ''b'')],
       params_body = None, params_binaryBody = Some [], params_escapeHeaderValues = None,
       params_skipContentLengthHeader = Some True \<rparr>)) =
     js ''SEND'' @ BYTE_LF @ js ''a:b'' @ BYTE_LF @ js ''content-length:0'' @ BYTE_LF @ BYTE_LF \<and>
   fst (serializeCmdAndHeaders (Frame
     \<lparr> params_command = js ''SEND'', params_headers = Some [(js ''a'', js ''b'')],
       params_body = Some (js ''xyz''), params_binaryBody = None, params_escapeHeaderValues = None,
       params_skipContentLengthHeader = None \<rparr>)) =
     js ''SEND'' @ BYTE_LF @ js ''a:b'' @ BYTE_LF @ js ''content-length:3'' @ BYTE_LF @ BYTE_LF"
  using
    serializeCmdAndHeaders_content_length [of "Frame
     \<lparr> params_command = js ''SEND'', params_headers = Some [(js ''a'', js ''b'')],
       params_body = None, params_binaryBody = Some [], params_escapeHeaderValues = None,
       params_skipContentLengthHeader = Some True \<rparr>"]
    serializeCmdAndHeaders_content_length [of "Frame
     \<lparr> params_command = js ''SEND'', params_headers = Some [(js ''a'', js ''b'')],
       params_body = Some (js ''xyz''), params_binaryBody = None, params_escapeHeaderValues = None,
       params_skipContentLengthHeader = None \<rparr>"]
  by (simp add: Frame_def headerLines_def headersSent_def headerLine_def escaping_def
      bodyLength_def binaryBody_def object_defs encode_defs lit_defs)

text \<open>
  C3, as stated: the frame is binary-bodied exactly when \<open>binaryBody\<close> is supplied and
  non-empty. A supplied empty \<open>binaryBody\<close> gives a binary-bodied frame, with no text body.
\<close>

theorem Frame_empty_binaryBody_is_binary:
  "params_binaryBody
     \<lparr> params_command = js ''SEND'', params_headers = None, params_body = Some (js ''text''),
       params_binaryBody = Some [], params_escapeHeaderValues = None,
       params_skipContentLengthHeader = None \<rparr> = Some [] \<and>
   isBinaryBody (Frame
     \<lparr> params_command = js ''SEND'', params_headers = None, params_body = Some (js ''text''),
       params_binaryBody = Some [], params_escapeHeaderValues = None,
       params_skipContentLengthHeader = None \<rparr>) \<and>
   u_body (Frame
     \<lparr> params_command = js ''SEND'', params_headers = None, params_body = Some (js ''text''),
       params_binaryBody = Some [], params_escapeHeaderValues = None,
       params_skipContentLengthHeader = None \<rparr>) = None"
  by (simp add: Frame_def)

text \<open>
  C3, amended: the frame is binary-bodied exactly when \<open>binaryBody\<close> is supplied, empty
  or not, and then it holds those bytes and no text; when \<open>binaryBody\<close> is absent the
  frame is text-bodied, its text the supplied body, or the empty text when the body is
  absent, and the getter \<open>body\<close> returns that text.
\<close>

theorem Frame_body_kind:
  "(isBinaryBody (Frame p) \<longleftrightarrow> params_binaryBody p \<noteq> None) \<and>
   (params_binaryBody p = Some b \<longrightarrow>
      isBinaryBody (Frame p) \<and> u_binaryBody (Frame p) = Some b \<and> u_body (Frame p) = None) \<and>
   (params_binaryBody p = None \<longrightarrow>
      \<not> isBinaryBody (Frame p) \<and> u_binaryBody (Frame p) = None \<and>
      fst (body (Frame p)) = Some (case params_body p of None \<Rightarrow> [] | Some s \<Rightarrow> s))"
  by (cases "params_binaryBody p") (simp_all add: Frame_def body_def)

theorem Frame_body_kind_witness:
  "isBinaryBody (Frame
     \<lparr> params_command = js ''SEND'', params_headers = None, params_body = None,
       params_binaryBody = Some [], params_escapeHeaderValues = None,
       params_skipContentLengthHeader = None \<rparr>) \<and>
   fst (body (Frame
     \<lparr> params_command = js ''SEND'', params_headers = None, params_body = None,
       params_binaryBody = None, params_escapeHeaderValues = None,
       params_skipContentLengthHeader = None \<rparr>)) = Some []"
  using
    Frame_body_kind [of "\<lparr> params_command = js ''SEND'', params_headers = None,
       params_body = None, params_binaryBody = Some [], params_escapeHeaderValues = None,
       params_skipContentLengthHeader = None \<rparr>" "[]"]
    Frame_body_kind [of "\<lparr> params_command = js ''SEND'', params_headers = None,
       params_body = None, params_binaryBody = None, params_escapeHeaderValues = None,
       params_skipContentLengthHeader = None \<rparr>" "[]"]
  by simp

text \<open>
  C4, as stated: decoding the split of the serialization of a text-bodied frame, with
  escaping enabled and a command other than CONNECT, gives back the headers of the
  frame. A header value that starts with a space does not come back: the frame SEND
  with the header \<open>a\<close> of value space-\<open>x\<close> is serialized with the line \<open>a: x\<close>, and
  \<open>fromRawFrame\<close> trims the value to \<open>x\<close>.
\<close>

theorem round_trip_loses_leading_space:
  "map_sum id fst (serialize (Frame
     \<lparr> params_command = js ''SEND'', params_headers = Some [(js ''a'', js '' x'')],
       params_body = None, params_binaryBody = None, params_escapeHeaderValues = Some True,
       params_skipContentLengthHeader = None \<rparr>)) =
     Inr (WireText (js ''SEND'' @ BYTE_LF @ js ''a: x'' @ BYTE_LF @ BYTE_LF @ BYTE_NULL)) \<and>
   map_of (headers (Frame
     \<lparr> params_command = js ''SEND'', params_headers = Some [(js ''a'', js '' x'')],
       params_body = None, params_binaryBody = None, params_escapeHeaderValues = Some True,
       params_skipContentLengthHeader = None \<rparr>)) (js ''a'') = Some (js '' x'') \<and>
   map_of (headers (fst (fromRawFrame
     (split (wireBytes (WireText
        (js ''SEND'' @ BYTE_LF @ js ''a: x'' @ BYTE_LF @ BYTE_LF @ BYTE_NULL)))) True)))
     (js ''a'') = Some (js ''x'')"
  by (simp add: frame_defs object_defs encode_defs lit_defs fromRawFrame_def Let_def split_def
      wireBytes_def splitHeaderLine_def declaredLength_def TextDecoder_decode_def lead_byte_def
      decoder_start_def utf16_units_def trim_def isWhiteSpace_def)

text \<open>
  C4, amended. Let a frame be constructed with a text body, escaping enabled and a
  command other than CONNECT and CONNECTED, such that the command, the header names,
  the header values and the body have no unpaired surrogate; the command holds no
  line feed and does not start with U+FEFF; no header name holds a line feed or a
  colon; no header name or value starts or ends with white space; no header value
  has a backslash directly before an \<open>r\<close>, an \<open>n\<close> or a \<open>c\<close>; the body does not
  start with U+FEFF; a body that holds a null character is sent with its length
  (\<open>skipContentLengthHeader\<close> is not set); and an entry \<open>content-length\<close> given by
  the caller, unless \<open>skipContentLengthHeader\<close> removes it, is the decimal number
  of UTF-8 bytes of the body. Then \<open>serialize\<close> returns a text, and decoding the
  split of the bytes of that text, with escaping enabled, gives a frame with the
  same command, the same value as the frame for every header name other than
  \<open>content-length\<close>, the value of the entry \<open>content-length\<close> of the frame when it
  still has one after the serialization, and the same body text.
\<close>

theorem text_frame_round_trip:
  assumes "params_binaryBody p = None"
    and "params_escapeHeaderValues p = Some True"
    and "params_command p \<noteq> js ''CONNECT''"
    and "params_command p \<noteq> js ''CONNECTED''"
    and "0x0A \<notin> set (params_command p)"
    and "wellFormed (params_command p)"
    and "params_command p = [] \<or> hd (params_command p) \<noteq> 0xFEFF"
    and "list_all (\<lambda>(n, v). 0x0A \<notin> set n \<and> 0x3A \<notin> set n \<and> trim n = n \<and> wellFormed n \<and>
           trim v = v \<and> clashFree v \<and> wellFormed v) (headers (Frame p))"
    and "str = (case params_body p of None \<Rightarrow> [] | Some s \<Rightarrow> s)"
    and "wellFormed str"
    and "str = [] \<or> hd str \<noteq> 0xFEFF"
    and "0x00 \<notin> set str \<or> params_skipContentLengthHeader p \<noteq> Some True"
    and "params_skipContentLengthHeader p = Some True \<or>
         (case map_of (headers (Frame p)) (js ''content-length'') of
            None \<Rightarrow> True
          | Some v \<Rightarrow> v = number_toString (length (TextEncoder_encode str)))"
  shows "\<exists>w this'.
     serialize (Frame p) = Inr (WireText w, this') \<and>
     command (fst (fromRawFrame (split (wireBytes (WireText w))) True)) = params_command p \<and>
     (\<forall>k. k \<noteq> js ''content-length'' \<longrightarrow>
        map_of (headers (fst (fromRawFrame (split (wireBytes (WireText w))) True))) k =
        map_of (headers (Frame p)) k) \<and>
     (\<forall>v. map_of (headers this') (js ''content-length'') = Some v \<longrightarrow>
        map_of (headers (fst (fromRawFrame (split (wireBytes (WireText w))) True)))
          (js ''content-length'') = Some v) \<and>
     fst (body (fst (fromRawFrame (split (wireBytes (WireText w))) True))) = Some str"
proof -
  let ?F = "Frame p"
  let ?hs = "headersSent ?F"
  let ?CL = "js ''content-length''"
  define w where "w = fst (serializeCmdAndHeaders ?F) @ str @ BYTE_NULL"
  define D where "D = fst (fromRawFrame (split (wireBytes (WireText w))) True)"
  have esc: "escaping (escapeHeaderValues ?F) (command ?F)"
    using assms(2-4) by (simp add: escaping_def Frame_fields)
  have nul: "0x00 \<notin> set str \<or> \<not> skipContentLengthHeader ?F"
    using assms(12) by (simp add: Frame_fields)
  have own: "case map_of ?hs ?CL of
               None \<Rightarrow> True
             | Some v \<Rightarrow> v = number_toString (length (TextEncoder_encode str))"
    using assms(13) by (auto simp: headersSent_def Frame_fields delete_conv')
  from split_serialized [OF assms(1) esc assms(5-10) nul own]
  obtain cl where sp: "split (wireBytes (WireText w)) =
       \<lparr> raw_command = params_command p,
         raw_headers =
           map (\<lambda>n. (n, hdrValueEscape (toStr (map_of ?hs n)))) (Object_keys ?hs) @
           map (\<lambda>d. (?CL, d)) cl,
         raw_binaryBody = Some (TextEncoder_encode str) \<rparr>"
    and un: "map (\<lambda>h. (trim (fst h), hdrValueUnEscape (trim (snd h))))
       (map (\<lambda>n. (n, hdrValueEscape (toStr (map_of ?hs n)))) (Object_keys ?hs)) =
     map (\<lambda>n. (n, toStr (map_of ?hs n))) (Object_keys ?hs)"
    unfolding w_def wireBytes_def wire.case by blast
  have ser: "serialize ?F = Inr (WireText w, snd (serializeCmdAndHeaders ?F))"
    using serialize_text [OF assms(1)] by (simp add: w_def assms(9))
  have c: "command D = params_command p"
    by (simp add: D_def fromRawFrame_frame sp)
  have esc': "escaping True (raw_command (split (wireBytes (WireText w))))"
    using esc by (simp add: sp escaping_def Frame_fields)
  have np: "map_of ?hs (js ''__proto__'') = None"
    by (simp add: headersSent_def delete_conv' Frame_def map_of_Object_assign_empty)
  have look: "map_of (headers D) k =
      (case map_of ?hs k of
         Some v \<Rightarrow> Some v
       | None \<Rightarrow> if k = js ''__proto__'' then None
                else map_of (map (\<lambda>d. (?CL, hdrValueUnEscape (trim d))) cl) k)" for k
  proof (cases "k = js ''__proto__''")
    case True
    then show ?thesis
      by (simp add: D_def headers_fromRawFrame np)
  next
    case False
    have "map_of (headers D) k =
        map_of (map (\<lambda>n. (n, toStr (map_of ?hs n))) (Object_keys ?hs) @
                map (\<lambda>d. (?CL, hdrValueUnEscape (trim d))) cl) k"
      unfolding D_def headers_fromRawFrame using esc' un False
      by (simp add: sp trim_content_length comp_def cong: map_cong)
    then show ?thesis
      using False by (simp add: map_add_def map_of_sent_keys split: option.splits)
  qed
  have h1: "map_of (headers D) k = map_of (headers ?F) k" if "k \<noteq> ?CL" for k
  proof -
    have "map_of (map (\<lambda>d. (?CL, hdrValueUnEscape (trim d))) cl) k = None"
      using that by (simp add: map_of_eq_None_iff image_iff)
    moreover have "map_of ?hs k = map_of (headers ?F) k"
      using that by (simp add: headersSent_def)
    ultimately show ?thesis
      by (simp add: look split: option.splits)
  qed
  have h2: "map_of (headers D) ?CL = Some v"
    if "map_of (headers (snd (serializeCmdAndHeaders ?F))) ?CL = Some v" for v
    using that by (simp add: look serializeCmdAndHeaders_frame)
  have b: "fst (body D) = Some str"
    by (simp add: body_def D_def fromRawFrame_frame sp
        TextDecoder_decode_TextEncoder_encode [OF assms(10,11)])
  from ser c h1 h2 b show ?thesis
    unfolding D_def by blast
qed

theorem text_frame_round_trip_witness:
  "\<exists>w this'.
     serialize (Frame
       \<lparr> params_command = js ''SEND'', params_headers = Some [(js ''a'', js ''b:c'')],
         params_body = Some [0x68, 0xE9], params_binaryBody = None,
         params_escapeHeaderValues = Some True, params_skipContentLengthHeader = None \<rparr>) =
       Inr (WireText w, this') \<and>
     command (fst (fromRawFrame (split (wireBytes (WireText w))) True)) = js ''SEND'' \<and>
     map_of (headers (fst (fromRawFrame (split (wireBytes (WireText w))) True))) (js ''a'') =
       Some (js ''b:c'') \<and>
     fst (body (fst (fromRawFrame (split (wireBytes (WireText w))) True))) = Some [0x68, 0xE9]"
proof -
  let ?p = "\<lparr> params_command = js ''SEND'', params_headers = Some [(js ''a'', js ''b:c'')],
         params_body = Some [0x68, 0xE9], params_binaryBody = None,
         params_escapeHeaderValues = Some True, params_skipContentLengthHeader = None \<rparr>"
  have "\<exists>w this'.
     serialize (Frame ?p) = Inr (WireText w, this') \<and>
     command (fst (fromRawFrame (split (wireBytes (WireText w))) True)) = params_command ?p \<and>
     (\<forall>k. k \<noteq> js ''content-length'' \<longrightarrow>
        map_of (headers (fst (fromRawFrame (split (wireBytes (WireText w))) True))) k =
        map_of (headers (Frame ?p)) k) \<and>
     (\<forall>v. map_of (headers this') (js ''content-length'') = Some v \<longrightarrow>
        map_of (headers (fst (fromRawFrame (split (wireBytes (WireText w))) True)))
          (js ''content-length'') = Some v) \<and>
     fst (body (fst (fromRawFrame (split (wireBytes (WireText w))) True))) = Some [0x68, 0xE9]"
    by (rule text_frame_round_trip)
       (simp_all add: Frame_def object_defs lit_defs trim_def isWhiteSpace_def
          isHighSurrogate_def isLowSurrogate_def)
  then obtain w this' where ser: "serialize (Frame ?p) = Inr (WireText w, this')"
    and c: "command (fst (fromRawFrame (split (wireBytes (WireText w))) True)) = params_command ?p"
    and h: "\<forall>k. k \<noteq> js ''content-length'' \<longrightarrow>
        map_of (headers (fst (fromRawFrame (split (wireBytes (WireText w))) True))) k =
        map_of (headers (Frame ?p)) k"
    and b: "fst (body (fst (fromRawFrame (split (wireBytes (WireText w))) True))) =
        Some [0x68, 0xE9]"
    by (elim exE conjE)
  have ne: "js ''a'' \<noteq> js ''content-length''"
    by (simp add: js_def)
  have "map_of (headers (fst (fromRawFrame (split (wireBytes (WireText w))) True))) (js ''a'') =
      map_of (headers (Frame ?p)) (js ''a'')"
    by (rule h [rule_format, OF ne])
  also have "\<dots> = Some (js ''b:c'')"
    by (simp add: Frame_def object_defs lit_defs)
  finally have "map_of (headers (fst (fromRawFrame (split (wireBytes (WireText w))) True)))
      (js ''a'') = Some (js ''b:c'')" .
  with ser c b show ?thesis
    by (intro exI [of _ w] exI [of _ this'] conjI) simp_all
qed

text \<open>
  C5. When header lines repeat a name, the decoded headers are claimed to bind the
  name to the value of the first of them. For the name \<open>__proto__\<close> they bind
  nothing: \<open>headers[key] = value\<close> on the object \<open>{}\<close> reaches the setter of
  \<open>Object.prototype\<close>, and no line of that name is stored, neither the first nor the
  last; the decoded frame has no header at all here.
\<close>

theorem fromRawFrame_drops_proto:
  "headers (fst (fromRawFrame
      \<lparr> raw_command = js ''MESSAGE'',
        raw_headers = [(js ''__proto__'', js ''1''), (js ''__proto__'', js ''2'')],
        raw_binaryBody = None \<rparr> True)) = [] \<and>
   map_of (headers (fst (fromRawFrame
      \<lparr> raw_command = js ''MESSAGE'',
        raw_headers = [(js ''__proto__'', js ''1''), (js ''__proto__'', js ''2'')],
        raw_binaryBody = None \<rparr> True))) (js ''__proto__'') = None \<and>
   map_of (headers (fst (fromRawFrame
      \<lparr> raw_command = js ''MESSAGE'',
        raw_headers = [(js ''a'', js ''1''), (js ''a'', js ''2'')],
        raw_binaryBody = None \<rparr> True))) (js ''a'') = Some (js ''1'')"
  by (simp add: fromRawFrame_def Let_def Frame_def object_defs lit_defs trim_def
      isWhiteSpace_def escaping_def hdrValueUnEscape_def)

text \<open>
  C6. For a frame whose command is CONNECT or CONNECTED, whatever its flag
  \<open>escapeHeaderValues\<close>, every header line of the serialization is the name, a colon
  and the value as it is; and for a raw frame with such a command, whatever the flag
  passed, the decoded headers hold the trimmed raw values, not unescaped (under
  every name but \<open>__proto__\<close>, which is never stored).
\<close>

theorem CONNECT_exempt_from_escaping:
  assumes "cmd = js ''CONNECT'' \<or> cmd = js ''CONNECTED''"
    and "command this = cmd"
    and "raw_command r = cmd"
  shows "fst (serializeCmdAndHeaders this) =
           join BYTE_LF (cmd #
             map (\<lambda>name. name @ js '':'' @ toStr (map_of (headersSent this) name))
               (Object_keys (headersSent this)) @
             (if isBinaryBody this \<or> (fst (bodyLength this) \<noteq> 0 \<and> \<not> skipContentLengthHeader this)
              then [js ''content-length:'' @ number_toString (fst (bodyLength this))] else [])) @
           BYTE_LF @ BYTE_LF \<and>
         map_of (headers (fst (fromRawFrame r esc))) k =
           (if k = js ''__proto__'' then None
            else map_of (map (\<lambda>h. (trim (fst h), trim (snd h))) (raw_headers r)) k)"
proof -
  from assms have ne: "\<not> escaping (escapeHeaderValues this) (command this)"
    "\<not> escaping esc (raw_command r)"
    by (auto simp: escaping_def)
  have "headerLines this =
          map (\<lambda>name. name @ js '':'' @ toStr (map_of (headersSent this) name))
            (Object_keys (headersSent this))"
    using ne(1) by (simp add: headerLines_def headerLine_def)
  then have "fst (serializeCmdAndHeaders this) =
           join BYTE_LF (cmd #
             map (\<lambda>name. name @ js '':'' @ toStr (map_of (headersSent this) name))
               (Object_keys (headersSent this)) @
             (if isBinaryBody this \<or> (fst (bodyLength this) \<noteq> 0 \<and> \<not> skipContentLengthHeader this)
              then [js ''content-length:'' @ number_toString (fst (bodyLength this))] else [])) @
           BYTE_LF @ BYTE_LF"
    by (simp add: serializeCmdAndHeaders_text assms(2))
  moreover have "map_of (headers (fst (fromRawFrame r esc))) k =
           (if k = js ''__proto__'' then None
            else map_of (map (\<lambda>h. (trim (fst h), trim (snd h))) (raw_headers r)) k)"
    using ne(2) by (simp add: headers_fromRawFrame)
  ultimately show ?thesis ..
qed

theorem CONNECT_exempt_from_escaping_witness:
  "fst (serializeCmdAndHeaders (Frame
     \<lparr> params_command = js ''CONNECT'', params_headers = Some [(js ''login'', js ''a:b'')],
       params_body = None, params_binaryBody = None, params_escapeHeaderValues = Some True,
       params_skipContentLengthHeader = None \<rparr>)) =
     js ''CONNECT'' @ BYTE_LF @ js ''login:a:b'' @ BYTE_LF @ BYTE_LF \<and>
   map_of (headers (fst (fromRawFrame
     \<lparr> raw_command = js ''CONNECT'', raw_headers = [(js ''login'', [0x61, 0x5C, 0x63, 0x62])],
       raw_binaryBody = None \<rparr> True))) (js ''login'') = Some [0x61, 0x5C, 0x63, 0x62]"
  using CONNECT_exempt_from_escaping [of "js ''CONNECT''"
     "Frame \<lparr> params_command = js ''CONNECT'', params_headers = Some [(js ''login'', js ''a:b'')],
       params_body = None, params_binaryBody = None, params_escapeHeaderValues = Some True,
       params_skipContentLengthHeader = None \<rparr>"
     "\<lparr> raw_command = js ''CONNECT'', raw_headers = [(js ''login'', [0x61, 0x5C, 0x63, 0x62])],
       raw_binaryBody = None \<rparr>" True "js ''login''"]
  by (simp add: Frame_def headersSent_def bodyLength_def binaryBody_def object_defs encode_defs
      lit_defs trim_def isWhiteSpace_def)

text \<open>
  C7. Whenever a frame, as constructed, emits the line \<open>content-length\<close> (its body
  is binary, or is a text that is not empty while \<open>skipContentLengthHeader\<close> is not
  set), the value is the number of bytes of the body: the length of the binary
  body, or of the UTF-8 encoding of the text, not the number of its characters. The
  text of five characters h, e-acute, l, l, o gives 6.
\<close>

theorem content_length_is_byte_length:
  assumes "bytes = (case params_binaryBody p of
                      Some b \<Rightarrow> b
                    | None \<Rightarrow> TextEncoder_encode (case params_body p of None \<Rightarrow> [] | Some s \<Rightarrow> s))"
    and "isBinaryBody (Frame p) \<or> (bytes \<noteq> [] \<and> \<not> skipContentLengthHeader (Frame p))"
  shows "fst (serializeCmdAndHeaders (Frame p)) =
           join BYTE_LF (command (Frame p) # headerLines (Frame p) @
             [js ''content-length:'' @ number_toString (length bytes)]) @ BYTE_LF @ BYTE_LF"
proof -
  have len: "fst (bodyLength (Frame p)) = length bytes"
    by (simp add: assms(1) Frame_def bodyLength_def binaryBody_def split: option.splits)
  with assms(2)
  have "isBinaryBody (Frame p) \<or>
        (fst (bodyLength (Frame p)) \<noteq> 0 \<and> \<not> skipContentLengthHeader (Frame p))"
    by auto
  then show ?thesis
    by (simp add: serializeCmdAndHeaders_text len)
qed

theorem content_length_is_byte_length_witness:
  "length [0x68, 0xE9, 0x6C, 0x6C, 0x6F :: code_unit] = 5 \<and>
   fst (serializeCmdAndHeaders (Frame
     \<lparr> params_command = js ''SEND'', params_headers = None,
       params_body = Some [0x68, 0xE9, 0x6C, 0x6C, 0x6F],
       params_binaryBody = None, params_escapeHeaderValues = None,
       params_skipContentLengthHeader = None \<rparr>)) =
     js ''SEND'' @ BYTE_LF @ js ''content-length:6'' @ BYTE_LF @ BYTE_LF"
  using content_length_is_byte_length [of "[0x68, 0xC3, 0xA9, 0x6C, 0x6C, 0x6F]"
     "\<lparr> params_command = js ''SEND'', params_headers = None,
       params_body = Some [0x68, 0xE9, 0x6C, 0x6C, 0x6F],
       params_binaryBody = None, params_escapeHeaderValues = None,
       params_skipContentLengthHeader = None \<rparr>"]
  by (simp add: Frame_def headerLines_def headersSent_def object_defs encode_defs lit_defs)

text \<open>
  C8. \<open>serialize\<close> returns for every frame, as constructed: the header block is the
  lines joined by line feeds and then two line feeds, the body follows it, and one
  null follows the body and ends the output. A text body gives that text, a binary
  body the bytes of the encoded header block, of the body and the null byte.
\<close>

theorem serialize_layout:
  "\<exists>lines.
     fst (serializeCmdAndHeaders (Frame p)) =
       join BYTE_LF (params_command p # lines) @ BYTE_LF @ BYTE_LF \<and>
     map_sum id fst (serialize (Frame p)) =
       Inr (case params_binaryBody p of
              Some b \<Rightarrow>
                WireBuffer (TextEncoder_encode (join BYTE_LF (params_command p # lines)) @
                  [0x0A, 0x0A] @ b @ [0x00])
            | None \<Rightarrow>
                WireText (join BYTE_LF (params_command p # lines) @ BYTE_LF @ BYTE_LF @
                  (case params_body p of None \<Rightarrow> [] | Some s \<Rightarrow> s) @ BYTE_NULL))"
proof -
  define lines where "lines = headerLines (Frame p) @
       (if isBinaryBody (Frame p) \<or>
           (fst (bodyLength (Frame p)) \<noteq> 0 \<and> \<not> skipContentLengthHeader (Frame p))
        then [js ''content-length:'' @ number_toString (fst (bodyLength (Frame p)))] else [])"
  define block where "block = join BYTE_LF (params_command p # lines)"
  have h: "fst (serializeCmdAndHeaders (Frame p)) = block @ BYTE_LF @ BYTE_LF"
    by (simp add: serializeCmdAndHeaders_text block_def lines_def Frame_fields)
  have enc: "TextEncoder_encode (block @ BYTE_LF @ BYTE_LF) = TextEncoder_encode block @ [0x0A, 0x0A]"
    using TextEncoder_encode_append [of "BYTE_LF @ BYTE_LF" block]
    by (simp add: TextEncoder_encode_LF_LF) (simp add: BYTE_LF_def isLowSurrogate_def)
  have "map_sum id fst (serialize (Frame p)) =
       Inr (case params_binaryBody p of
              Some b \<Rightarrow> WireBuffer (TextEncoder_encode block @ [0x0A, 0x0A] @ b @ [0x00])
            | None \<Rightarrow>
                WireText (block @ BYTE_LF @ BYTE_LF @
                  (case params_body p of None \<Rightarrow> [] | Some s \<Rightarrow> s) @ BYTE_NULL))"
  proof (cases "params_binaryBody p")
    case None
    then show ?thesis
      using h by (simp add: serialize_def case_prod_unfold serializeCmdAndHeaders_frame
          Frame_fields toStr_def)
  next
    case (Some b)
    then show ?thesis
      using h enc by (simp add: serialize_def case_prod_unfold serializeCmdAndHeaders_frame
          Frame_fields toUnit8Array_def)
  qed
  with h show ?thesis unfolding block_def by blast
qed

text \<open>
  C9. For a frame constructed with \<open>skipContentLengthHeader\<close> set, the header block
  is the command and the lines of the headers whose name is not \<open>content-length\<close>,
  followed, for a binary body only, by the line \<open>content-length\<close> of the length of
  that body; after the serialization the frame has no entry \<open>content-length\<close>. So no
  line comes from an entry \<open>content-length\<close> of the caller, and with a text body the
  block has no such line at all: when no header name holds a colon, no header line
  starts with \<open>content-length:\<close>.
\<close>

theorem skipContentLengthHeader_removes_content_length:
  assumes "params_skipContentLengthHeader p = Some True"
  shows "fst (serializeCmdAndHeaders (Frame p)) =
           join BYTE_LF (params_command p #
             map (headerLine (Frame p))
               (filter (\<lambda>n. n \<noteq> js ''content-length'') (Object_keys (headers (Frame p)))) @
             (case params_binaryBody p of
                Some b \<Rightarrow> [js ''content-length:'' @ number_toString (length b)]
              | None \<Rightarrow> [])) @ BYTE_LF @ BYTE_LF \<and>
         map_of (headers (snd (serializeCmdAndHeaders (Frame p)))) (js ''content-length'') = None \<and>
         (list_all (\<lambda>n. 0x3A \<notin> set n) (Object_keys (headers (Frame p))) \<longrightarrow>
          list_all (\<lambda>l. \<not> prefix (js ''content-length:'') l)
            (map (headerLine (Frame p))
               (filter (\<lambda>n. n \<noteq> js ''content-length'') (Object_keys (headers (Frame p))))))"
proof -
  from assms have skip: "skipContentLengthHeader (Frame p)"
    by (simp add: Frame_fields)
  have "fst (serializeCmdAndHeaders (Frame p)) =
           join BYTE_LF (params_command p #
             map (headerLine (Frame p))
               (filter (\<lambda>n. n \<noteq> js ''content-length'') (Object_keys (headers (Frame p)))) @
             (case params_binaryBody p of
                Some b \<Rightarrow> [js ''content-length:'' @ number_toString (length b)]
              | None \<Rightarrow> [])) @ BYTE_LF @ BYTE_LF"
    using skip
    by (simp add: serializeCmdAndHeaders_text headerLines_skip
        Frame_fields bodyLength_def binaryBody_def split: option.splits)
  moreover have "map_of (headers (snd (serializeCmdAndHeaders (Frame p)))) (js ''content-length'') = None"
    using skip by (simp add: serializeCmdAndHeaders_frame headersSent_def delete_conv')
  moreover have "list_all (\<lambda>n. 0x3A \<notin> set n) (Object_keys (headers (Frame p))) \<longrightarrow>
          list_all (\<lambda>l. \<not> prefix (js ''content-length:'') l)
            (map (headerLine (Frame p))
               (filter (\<lambda>n. n \<noteq> js ''content-length'') (Object_keys (headers (Frame p)))))"
    by (auto simp: list_all_iff headerLine_not_content_length)
  ultimately show ?thesis by blast
qed

theorem skipContentLengthHeader_removes_content_length_witness:
  "fst (serializeCmdAndHeaders (Frame
     \<lparr> params_command = js ''SEND'',
       params_headers = Some [(js ''content-length'', js ''99''), (js ''a'', js ''b'')],
       params_body = None, params_binaryBody = None, params_escapeHeaderValues = None,
       params_skipContentLengthHeader = Some True \<rparr>)) =
     js ''SEND'' @ BYTE_LF @ js ''a:b'' @ BYTE_LF @ BYTE_LF"
  using skipContentLengthHeader_removes_content_length [of
     "\<lparr> params_command = js ''SEND'',
       params_headers = Some [(js ''content-length'', js ''99''), (js ''a'', js ''b'')],
       params_body = None, params_binaryBody = None, params_escapeHeaderValues = None,
       params_skipContentLengthHeader = Some True \<rparr>"]
  by (simp add: Frame_def headerLine_def escaping_def object_defs lit_defs)

text \<open>
  C10. \<open>fromRawFrame\<close> reverses the header lines of the raw frame it is given: after
  the call the caller's raw frame holds the same lines in the opposite order, and
  nothing else of it has changed.
\<close>

theorem fromRawFrame_reverses_raw_headers:
  "raw_headers (snd (fromRawFrame r esc)) = rev (raw_headers r) \<and>
   raw_command (snd (fromRawFrame r esc)) = raw_command r \<and>
   raw_binaryBody (snd (fromRawFrame r esc)) = raw_binaryBody r"
  by (simp add: fromRawFrame_def Let_def)

end
